theory Spec2Isabelle
  imports Main
begin

section \<open>Strings\<close>

text \<open>
  A string is a list of code units. The model covers the code units below 256 (ASCII and
  the Latin-1 supplement), on which \<open>String.prototype.toLowerCase\<close> and
  \<open>String.prototype.trim\<close> are the functions below: the letters \<open>A\<close>-\<open>Z\<close> and
  U+00C0-U+00DE (U+00D7, the multiplication sign, apart) are moved up by 32, and the white
  space and line terminators are TAB, LF, VT, FF, CR, SPACE and NBSP.
\<close>

definition toLowerCase_char :: "char \<Rightarrow> char" where
  "toLowerCase_char c =
     (let n = (of_char c :: nat)
      in if (65 \<le> n \<and> n \<le> 90) \<or> (192 \<le> n \<and> n \<le> 222 \<and> n \<noteq> 215)
         then char_of (n + 32) else c)"

definition toLowerCase :: "string \<Rightarrow> string" where
  "toLowerCase s = map toLowerCase_char s"

definition isWhiteSpace :: "char \<Rightarrow> bool" where
  "isWhiteSpace c = ((of_char c :: nat) \<in> {9, 10, 11, 12, 13, 32, 160})"

definition trim :: "string \<Rightarrow> string" where
  "trim s = rev (dropWhile isWhiteSpace (rev (dropWhile isWhiteSpace s)))"

text \<open>\<open>s.startsWith(p)\<close> and \<open>s.includes(sub)\<close>.\<close>

fun startsWith :: "string \<Rightarrow> string \<Rightarrow> bool" where
  "startsWith s [] = True"
| "startsWith [] (p # ps) = False"
| "startsWith (c # cs) (p # ps) = (c = p \<and> startsWith cs ps)"

fun str_includes :: "string \<Rightarrow> string \<Rightarrow> bool" where
  "str_includes [] sub = (sub = [])"
| "str_includes (c # cs) sub = (startsWith (c # cs) sub \<or> str_includes cs sub)"

text \<open>
  \<open>s.split(sep)\<close> for a separator of one code unit: every occurrence separates, so the
  result has one more element than \<open>s\<close> has separators, and is never empty.
\<close>

primrec split :: "char \<Rightarrow> string \<Rightarrow> string list" where
  "split sep [] = [[]]"
| "split sep (c # cs) =
     (if c = sep then [] # split sep cs
      else (case split sep cs of [] \<Rightarrow> [[c]] | p # ps \<Rightarrow> (c # p) # ps))"

text \<open>Reading an array by index, \<open>undefined\<close> (here \<open>None\<close>) out of range.\<close>

definition nth_opt :: "'a list \<Rightarrow> nat \<Rightarrow> 'a option" where
  "nth_opt xs i = (if i < length xs then Some (xs ! i) else None)"

section \<open>Rule tables (constants.ts)\<close>

definition isAlpha :: "char \<Rightarrow> bool" where
  "isAlpha c = (let n = (of_char c :: nat) in (97 \<le> n \<and> n \<le> 122) \<or> (65 \<le> n \<and> n \<le> 90))"

definition isDigit :: "char \<Rightarrow> bool" where
  "isDigit c = (let n = (of_char c :: nat) in 48 \<le> n \<and> n \<le> 57)"

text \<open>The character classes \<open>[a-zA-Z0-9._%+-]\<close> and \<open>[a-zA-Z0-9.-]\<close>.\<close>

definition isLocalChar :: "char \<Rightarrow> bool" where
  "isLocalChar c = (isAlpha c \<or> isDigit c \<or> c \<in> {CHR ''.'', CHR ''_'', CHR ''%'', CHR ''+'', CHR ''-''})"

definition isDomainChar :: "char \<Rightarrow> bool" where
  "isDomainChar c = (isAlpha c \<or> isDigit c \<or> c \<in> {CHR ''.'', CHR ''-''})"

text \<open>
  \<open>EMAIL_REGEX.test(s)\<close> for \<open>/^[a-zA-Z0-9._%+-]+@[a-zA-Z0-9.-]+\.[a-zA-Z]{2,}$/\<close>.
  The first class has no \<open>@\<close>, so the first group is the longest prefix in the class; the
  last group has no dot, so it is the longest suffix of letters, and the dot before it is
  the last dot of the string. \<open>EMAIL_REGEX_lang\<close> is the language of the expression,
  written as the expression reads.
\<close>

definition EMAIL_REGEX_test :: "string \<Rightarrow> bool" where
  "EMAIL_REGEX_test s =
     (let localPart = takeWhile isLocalChar s; rest = dropWhile isLocalChar s
      in localPart \<noteq> [] \<and>
         (case rest of
            [] \<Rightarrow> False
          | c # host \<Rightarrow>
              c = CHR ''@'' \<and>
              (let tld = rev (takeWhile isAlpha (rev host));
                   pre = rev (dropWhile isAlpha (rev host))
               in 2 \<le> length tld \<and> pre \<noteq> [] \<and> last pre = CHR ''.'' \<and>
                  butlast pre \<noteq> [] \<and> list_all isDomainChar (butlast pre))))"

definition EMAIL_REGEX_lang :: "string \<Rightarrow> bool" where
  "EMAIL_REGEX_lang s =
     (\<exists>l d t. s = l @ ''@'' @ d @ ''.'' @ t \<and>
        l \<noteq> [] \<and> list_all isLocalChar l \<and>
        d \<noteq> [] \<and> list_all isDomainChar d \<and>
        2 \<le> length t \<and> list_all isAlpha t)"

definition TYPO_DOMAINS :: "string set" where
  "TYPO_DOMAINS =
     {''gmal.com'', ''gmil.com'', ''gail.com'', ''gmail.co'',
      ''yaho.com'', ''yahooo.com'', ''yhoo.com'',
      ''hotmal.com'', ''hotmai.com'', ''hotmil.com'',
      ''outlok.com'', ''outlook.co'',
      ''test.com'', ''example.com'', ''xyz.com'', ''abc.com'', ''no-reply.com''}"

definition DISPOSABLE_DOMAINS :: "string set" where
  "DISPOSABLE_DOMAINS =
     {''tempmail.com'', ''throwawaymail.com'', ''mailinator.com'', ''guerrillamail.com'',
      ''10minutemail.com'', ''yopmail.com'', ''getnada.com'', ''temp-mail.org'',
      ''fakeinbox.com'', ''burnermail.io''}"

definition ROLE_PREFIXES :: "string set" where
  "ROLE_PREFIXES =
     {''admin'', ''support'', ''info'', ''sales'', ''marketing'', ''contact'', ''office'',
      ''billing'', ''help'', ''noreply'', ''no-reply'', ''webmaster'', ''hr'', ''jobs'',
      ''enquiries'', ''media'', ''press''}"

text \<open>\<open>Set.prototype.has\<close> on a value that may be \<open>undefined\<close>.\<close>

definition has :: "string set \<Rightarrow> string option \<Rightarrow> bool" where
  "has S x = (case x of None \<Rightarrow> False | Some v \<Rightarrow> v \<in> S)"

section \<open>The classifier\<close>

datatype EmailStatus =
  VALID | INVALID_FORMAT | DISPOSABLE | ROLE_BASED | TYPO_DOMAIN | DUPLICATE | MISSING_MX

text \<open>The enumeration is a string enumeration: at run time a status is its name.\<close>

fun status_str :: "EmailStatus \<Rightarrow> string" where
  "status_str VALID = ''VALID''"
| "status_str INVALID_FORMAT = ''INVALID_FORMAT''"
| "status_str DISPOSABLE = ''DISPOSABLE''"
| "status_str ROLE_BASED = ''ROLE_BASED''"
| "status_str TYPO_DOMAIN = ''TYPO_DOMAIN''"
| "status_str DUPLICATE = ''DUPLICATE''"
| "status_str MISSING_MX = ''MISSING_MX''"

definition validateEmail :: "string \<Rightarrow> EmailStatus" where
  "validateEmail email =
     (if email = [] \<or> \<not> str_includes email ''@'' then INVALID_FORMAT
      else
        let lowerEmail = trim (toLowerCase email)
        in if \<not> EMAIL_REGEX_test lowerEmail then INVALID_FORMAT
           else
             let parts = split CHR ''@'' lowerEmail;
                 localPart = nth_opt parts 0;
                 domain = nth_opt parts 1
             in if has TYPO_DOMAINS domain then TYPO_DOMAIN
                else if has DISPOSABLE_DOMAINS domain then DISPOSABLE
                else if has ROLE_PREFIXES localPart then ROLE_BASED
                else VALID)"

section \<open>Objects\<close>

text \<open>
  A value is a string or \<open>undefined\<close>: the parser is run without dynamic typing, so a
  cell is a string. An object is the list of its own properties in the order
  \<open>Object.keys\<close> gives them: the array indices (canonical decimal strings below
  \<open>2^32 - 1\<close>) in ascending order, then the other keys in insertion order. The field
  resolver and the loop read a row by a key that \<open>Object.keys\<close> gave, or by
  \<open>_sourceFile\<close>, and \<open>obj_get\<close> is that read of an own property. The export projection
  reads a record by any listed name, and that read goes on to \<open>Object.prototype\<close>: it is
  \<open>read_or_empty\<close> below.
\<close>

datatype jsval = Undefined | Str string

type_synonym obj = "(string \<times> jsval) list"

definition index_val :: "string \<Rightarrow> int" where
  "index_val k = foldl (\<lambda>a c. 10 * a + (of_char c - 48)) 0 k"

definition isArrayIndex :: "string \<Rightarrow> bool" where
  "isArrayIndex k =
     (k \<noteq> [] \<and> list_all isDigit k \<and> (k = ''0'' \<or> hd k \<noteq> CHR ''0'') \<and>
      index_val k < 4294967295)"

text \<open>\<open>o[k]\<close>, and \<open>o[k] = v\<close> (also the property definitions of an object literal).\<close>

definition obj_get :: "obj \<Rightarrow> string \<Rightarrow> jsval" where
  "obj_get ob k = (case map_of ob k of None \<Rightarrow> Undefined | Some v \<Rightarrow> v)"

fun insert_index :: "string \<Rightarrow> 'v \<Rightarrow> (string \<times> 'v) list \<Rightarrow> (string \<times> 'v) list" where
  "insert_index k v [] = [(k, v)]"
| "insert_index k v ((k', v') # ob) =
     (if isArrayIndex k' \<and> index_val k' < index_val k then (k', v') # insert_index k v ob
      else (k, v) # (k', v') # ob)"

definition obj_set :: "(string \<times> 'v) list \<Rightarrow> string \<Rightarrow> 'v \<Rightarrow> (string \<times> 'v) list" where
  "obj_set ob k v =
     (if k \<in> set (map fst ob) then map (\<lambda>(k', v'). if k' = k then (k', v) else (k', v')) ob
      else if isArrayIndex k then insert_index k v ob
      else ob @ [(k, v)])"

text \<open>The spread \<open>{...target, ...src}\<close>: the properties of \<open>src\<close> are set in order.\<close>

definition obj_assign :: "obj \<Rightarrow> obj \<Rightarrow> obj" where
  "obj_assign target src = foldl (\<lambda>ob (k, v). obj_set ob k v) target src"

text \<open>\<open>String(v)\<close>, and \<open>v || ''\<close> for a value that is a string or \<open>undefined\<close>.\<close>

definition js_String :: "jsval \<Rightarrow> string" where
  "js_String v = (case v of Undefined \<Rightarrow> ''undefined'' | Str s \<Rightarrow> s)"

definition or_empty :: "jsval \<Rightarrow> string" where
  "or_empty v = (case v of Undefined \<Rightarrow> [] | Str s \<Rightarrow> (if s = [] then [] else s))"

text \<open>
  \<open>Array.prototype.findIndex\<close> and \<open>indexOf\<close> (\<open>None\<close> for \<open>-1\<close>), and \<open>keys[i]\<close>
  used as a property key: \<open>undefined\<close> becomes the key \<open>"undefined"\<close>.
\<close>

primrec findIndex :: "('a \<Rightarrow> bool) \<Rightarrow> 'a list \<Rightarrow> nat option" where
  "findIndex P [] = None"
| "findIndex P (x # xs) =
     (if P x then Some 0 else (case findIndex P xs of None \<Rightarrow> None | Some i \<Rightarrow> Some (Suc i)))"

definition indexOf :: "'a list \<Rightarrow> 'a \<Rightarrow> nat option" where
  "indexOf xs x = findIndex (\<lambda>y. y = x) xs"

definition key_at :: "string list \<Rightarrow> nat option \<Rightarrow> string" where
  "key_at keys idx =
     (case idx of
        None \<Rightarrow> ''undefined''
      | Some i \<Rightarrow> (case nth_opt keys i of None \<Rightarrow> ''undefined'' | Some k \<Rightarrow> k))"

section \<open>The field resolver\<close>

definition findEmailKey :: "obj \<Rightarrow> string option" where
  "findEmailKey row =
     (let keys = map fst row
      in case find (\<lambda>k. str_includes (toLowerCase k) ''email'') keys of
           None \<Rightarrow> None
         | Some k \<Rightarrow> (if k = [] then None else Some k))"

definition extractName :: "obj \<Rightarrow> string" where
  "extractName row =
     (let keys = map fst row;
          lowerKeys = map toLowerCase keys
      in if ''name'' \<in> set lowerKeys
           then or_empty (obj_get row (key_at keys (indexOf lowerKeys ''name'')))
         else if ''full name'' \<in> set lowerKeys
           then or_empty (obj_get row (key_at keys (indexOf lowerKeys ''full name'')))
         else if ''fullname'' \<in> set lowerKeys
           then or_empty (obj_get row (key_at keys (indexOf lowerKeys ''fullname'')))
         else
           let firstIdx = findIndex (\<lambda>k. k = ''first name'' \<or> k = ''firstname'') lowerKeys;
               lastIdx = findIndex (\<lambda>k. k = ''last name'' \<or> k = ''lastname'') lowerKeys
           in if firstIdx \<noteq> None \<and> lastIdx \<noteq> None
                then let first = or_empty (obj_get row (key_at keys firstIdx));
                         last = or_empty (obj_get row (key_at keys lastIdx))
                     in trim (first @ '' '' @ last)
              else if firstIdx \<noteq> None
                then or_empty (obj_get row (key_at keys firstIdx))
              else
                (case find (\<lambda>k. let lower = toLowerCase k
                                in str_includes lower ''name'' \<and>
                                   \<not> str_includes lower ''email'' \<and>
                                   \<not> str_includes lower ''file'') keys of
                   None \<Rightarrow> []
                 | Some fuzzyKey \<Rightarrow>
                     (if fuzzyKey = [] then [] else or_empty (obj_get row fuzzyKey))))"

section \<open>The pipeline\<close>

record CleaningStats =
  totalProcessed :: nat
  totalValid :: nat
  totalDuplicates :: nat
  invalidBreakdown :: "EmailStatus \<Rightarrow> nat option"

record ProcessingResult =
  stats :: CleaningStats
  validRecords :: "obj list"
  invalidRecords :: "obj list"

text \<open>
  A file is its name and what \<open>parseFile\<close> resolves to, or that it rejects. A rejected
  file is logged and adds no rows.
\<close>

datatype parsed = ParseFailed | Parsed "obj list"

type_synonym input_file = "string \<times> parsed"

definition enrich :: "string \<Rightarrow> obj \<Rightarrow> obj" where
  "enrich fileName row = obj_set (obj_assign [] row) ''_sourceFile'' (Str fileName)"

definition consolidate :: "input_file list \<Rightarrow> obj list" where
  "consolidate files =
     foldl (\<lambda>allRecords (fileName, p).
              case p of
                ParseFailed \<Rightarrow> allRecords
              | Parsed data \<Rightarrow> allRecords @ map (enrich fileName) data)
           [] files"

text \<open>The variables the cleaning loop updates.\<close>

record loop_state =
  uniqueEmails :: "string set"
  processedRecords :: "obj list"
  cur_stats :: CleaningStats

definition all_statuses :: "EmailStatus list" where
  "all_statuses =
     [INVALID_FORMAT, DISPOSABLE, ROLE_BASED, TYPO_DOMAIN, DUPLICATE, MISSING_MX, VALID]"

definition initial_stats :: CleaningStats where
  "initial_stats =
     \<lparr>totalProcessed = 0, totalValid = 0, totalDuplicates = 0,
      invalidBreakdown =
        [INVALID_FORMAT \<mapsto> 0, DISPOSABLE \<mapsto> 0, ROLE_BASED \<mapsto> 0, TYPO_DOMAIN \<mapsto> 0,
         DUPLICATE \<mapsto> 0, MISSING_MX \<mapsto> 0, VALID \<mapsto> 0]\<rparr>"

definition initial_state :: loop_state where
  "initial_state = \<lparr>uniqueEmails = {}, processedRecords = [], cur_stats = initial_stats\<rparr>"

definition rawEmailOf :: "obj \<Rightarrow> string" where
  "rawEmailOf row =
     (case findEmailKey row of
        None \<Rightarrow> []
      | Some emailKey \<Rightarrow> (if emailKey = [] then [] else js_String (obj_get row emailKey)))"

text \<open>
  The status of a row and the deduplication set after it, from the set before it, the raw
  and the normalized email. \<open>assignStatus_base\<close> is the same step in the variant of the
  service without names, which adds to the set in both branches of a test.
\<close>

definition assignStatus :: "string set \<Rightarrow> string \<Rightarrow> string \<Rightarrow> EmailStatus \<times> string set" where
  "assignStatus uniq rawEmail normalizedEmail =
     (if rawEmail = [] then (INVALID_FORMAT, uniq)
      else if normalizedEmail \<in> uniq then (DUPLICATE, uniq)
      else (validateEmail normalizedEmail, insert normalizedEmail uniq))"

definition assignStatus_base :: "string set \<Rightarrow> string \<Rightarrow> string \<Rightarrow> EmailStatus \<times> string set" where
  "assignStatus_base uniq rawEmail normalizedEmail =
     (if rawEmail = [] then (INVALID_FORMAT, uniq)
      else if normalizedEmail \<in> uniq then (DUPLICATE, uniq)
      else
        let status = validateEmail normalizedEmail
        in if status = VALID then (status, insert normalizedEmail uniq)
           else (status, insert normalizedEmail uniq))"

definition or_zero :: "nat option \<Rightarrow> nat" where
  "or_zero x = (case x of None \<Rightarrow> 0 | Some n \<Rightarrow> (if n = 0 then 0 else n))"

definition updateStats :: "CleaningStats \<Rightarrow> EmailStatus \<Rightarrow> CleaningStats" where
  "updateStats st status =
     (if status = VALID then st\<lparr>totalValid := totalValid st + 1\<rparr>
      else
        let st1 = (if status = DUPLICATE then st\<lparr>totalDuplicates := totalDuplicates st + 1\<rparr>
                   else st)
        in st1\<lparr>invalidBreakdown :=
                 (invalidBreakdown st1)(status \<mapsto> or_zero (invalidBreakdown st1 status) + 1)\<rparr>)"

text \<open>
  The record pushed for a row: the five computed properties, then the row spread over
  them, so a column of the row with the name of a computed property replaces its value.
\<close>

definition makeRecord :: "string \<Rightarrow> string \<Rightarrow> string \<Rightarrow> EmailStatus \<Rightarrow> obj \<Rightarrow> obj" where
  "makeRecord rawEmail normalizedEmail name status row =
     obj_assign
       (obj_assign []
          [(''original'', Str rawEmail),
           (''email'', Str normalizedEmail),
           (''name'', Str name),
           (''status'', Str (status_str status)),
           (''sourceFile'', obj_get row ''_sourceFile'')])
       row"

definition processRow :: "loop_state \<Rightarrow> obj \<Rightarrow> loop_state" where
  "processRow st row =
     (let stats1 = (cur_stats st)\<lparr>totalProcessed := totalProcessed (cur_stats st) + 1\<rparr>;
          rawEmail = rawEmailOf row;
          normalizedEmail = trim (toLowerCase rawEmail);
          name = extractName row;
          (status, uniq') = assignStatus (uniqueEmails st) rawEmail normalizedEmail;
          stats2 = updateStats stats1 status
      in \<lparr>uniqueEmails = uniq',
          processedRecords =
            processedRecords st @ [makeRecord rawEmail normalizedEmail name status row],
          cur_stats = stats2\<rparr>)"

definition processFiles :: "input_file list \<Rightarrow> ProcessingResult" where
  "processFiles files =
     (let allRecords = consolidate files;
          st = foldl processRow initial_state allRecords
      in \<lparr>stats = cur_stats st,
          validRecords =
            filter (\<lambda>r. obj_get r ''status'' = Str (status_str VALID)) (processedRecords st),
          invalidRecords =
            filter (\<lambda>r. obj_get r ''status'' \<noteq> Str (status_str VALID)) (processedRecords st)\<rparr>)"

section \<open>The export projection\<close>

definition header_of :: "string \<Rightarrow> string" where
  "header_of col =
     (let header = col;
          header = (if col = ''email'' then ''Email'' else header);
          header = (if col = ''name'' then ''Name'' else header);
          header = (if col = ''status'' then ''Status'' else header)
      in header)"

text \<open>
  The records are plain objects, so reading a property that a record does not have itself
  goes on to \<open>Object.prototype\<close>. These are the names of the properties of
  \<open>Object.prototype\<close>. Each holds a function, but \<open>__proto__\<close>, which is an accessor: its
  getter gives the prototype of the object, here \<open>Object.prototype\<close> itself, and its setter
  sets the prototype when it is given an object and does nothing when it is given a
  string.
\<close>

definition object_prototype_names :: "string list" where
  "object_prototype_names =
     [''constructor'', ''__defineGetter__'', ''__defineSetter__'', ''hasOwnProperty'',
      ''__lookupGetter__'', ''__lookupSetter__'', ''isPrototypeOf'', ''propertyIsEnumerable'',
      ''toString'', ''valueOf'', ''__proto__'', ''toLocaleString'']"

text \<open>
  A value of an exported row: a value of the record's own, or the member of
  \<open>Object.prototype\<close> of the given name.
\<close>

datatype cell = Own jsval | Inherited string

text \<open>
  \<open>record[col] || ''\<close>: an own property gives its string, or the empty string where it
  is empty or \<open>undefined\<close>; an inherited member is an object, which is truthy, and is the
  result; anything else is \<open>undefined\<close>, which gives the empty string.
\<close>

definition read_or_empty :: "obj \<Rightarrow> string \<Rightarrow> cell" where
  "read_or_empty record col =
     (case map_of record col of
        Some v \<Rightarrow> Own (Str (or_empty v))
      | None \<Rightarrow>
          (if col \<in> set object_prototype_names then Inherited col else Own (Str [])))"

text \<open>
  \<open>filtered[header] = record[col] || ''\<close> for each listed field. The header is
  \<open>__proto__\<close> only for the field \<open>__proto__\<close>, whose value is a string of the record's
  own or \<open>Object.prototype\<close>: the setter leaves \<open>filtered\<close> as it is, with the prototype
  it has. Every other header is written as a property of \<open>filtered\<close>.
\<close>

definition project :: "obj \<Rightarrow> string list \<Rightarrow> (string \<times> cell) list" where
  "project record columns =
     foldl (\<lambda>filtered col.
              let header = header_of col;
                  v = read_or_empty record col
              in if header = ''__proto__'' then filtered else obj_set filtered header v)
           [] columns"

definition exportData :: "obj list \<Rightarrow> string list \<Rightarrow> (string \<times> cell) list list" where
  "exportData data columns =
     (if length columns > 0 then map (\<lambda>record. project record columns) data
      else map (\<lambda>record. map (\<lambda>(k, v). (k, Own v)) record) data)"

section \<open>Observers of a run\<close>

text \<open>
  The value of \<open>normalizedEmail\<close> for a row, the value of the variable \<open>status\<close> when the
  loop body runs on the row in a given state, and the sum of the values of a breakdown
  (its keys are among the seven statuses).
\<close>

definition normalizedEmailOf :: "obj \<Rightarrow> string" where
  "normalizedEmailOf row = trim (toLowerCase (rawEmailOf row))"

definition rowStatus :: "loop_state \<Rightarrow> obj \<Rightarrow> EmailStatus" where
  "rowStatus st row =
     fst (assignStatus (uniqueEmails st) (rawEmailOf row) (trim (toLowerCase (rawEmailOf row))))"

definition breakdown_sum :: "(EmailStatus \<Rightarrow> nat option) \<Rightarrow> nat" where
  "breakdown_sum m = sum_list (map (\<lambda>s. case m s of None \<Rightarrow> 0 | Some n \<Rightarrow> n) all_statuses)"

text \<open>The rows the parser gives for the files, before the origin file is attached.\<close>

definition parsed_rows :: "input_file list \<Rightarrow> obj list" where
  "parsed_rows files =
     concat (map (\<lambda>(fileName, p). case p of ParseFailed \<Rightarrow> [] | Parsed data \<Rightarrow> data) files)"

section \<open>The specification's reading of the resolver and of the projection\<close>

text \<open>
  The value of the first column, in column order, whose lowercased header satisfies a
  predicate.
\<close>

definition first_with :: "(string \<Rightarrow> bool) \<Rightarrow> obj \<Rightarrow> jsval option" where
  "first_with P row = map_option snd (find (\<lambda>(k, v). P (toLowerCase k)) row)"

definition isFirstName :: "string \<Rightarrow> bool" where
  "isFirstName k = (k = ''first name'' \<or> k = ''firstname'')"

definition isLastName :: "string \<Rightarrow> bool" where
  "isLastName k = (k = ''last name'' \<or> k = ''lastname'')"

definition isFuzzyName :: "string \<Rightarrow> bool" where
  "isFuzzyName k =
     (str_includes k ''name'' \<and> \<not> str_includes k ''email'' \<and> \<not> str_includes k ''file'')"

text \<open>The strategies (b), (c) and (d) of the name resolver, and the empty result.\<close>

definition name_fallbacks :: "obj \<Rightarrow> string" where
  "name_fallbacks row =
     (case first_with isFirstName row of
        Some f \<Rightarrow>
          (case first_with isLastName row of
             Some l \<Rightarrow> trim (or_empty f @ '' '' @ or_empty l)
           | None \<Rightarrow> or_empty f)
      | None \<Rightarrow>
          (case first_with isFuzzyName row of
             Some v \<Rightarrow> or_empty v
           | None \<Rightarrow> []))"

text \<open>
  The resolver as the specification words it: strategy (a) is one strategy, which takes
  the first column in column order whose header is any of the three exact names.
\<close>

definition extractName_spec :: "obj \<Rightarrow> string" where
  "extractName_spec row =
     (case first_with (\<lambda>k. k \<in> {''name'', ''full name'', ''fullname''}) row of
        Some v \<Rightarrow> or_empty v
      | None \<Rightarrow> name_fallbacks row)"

text \<open>
  The resolver with the three exact names tried one after the other, each taking the
  first column in column order with that header.
\<close>

definition extractName_ordered :: "obj \<Rightarrow> string" where
  "extractName_ordered row =
     (case first_with (\<lambda>k. k = ''name'') row of
        Some v \<Rightarrow> or_empty v
      | None \<Rightarrow>
          (case first_with (\<lambda>k. k = ''full name'') row of
             Some v \<Rightarrow> or_empty v
           | None \<Rightarrow>
               (case first_with (\<lambda>k. k = ''fullname'') row of
                  Some v \<Rightarrow> or_empty v
                | None \<Rightarrow> name_fallbacks row)))"

text \<open>
  The projection as the specification words it: one column for each listed field, in
  the order of the list, under the remapped header, with the empty string for a field
  the record lacks.
\<close>

definition project_spec :: "obj \<Rightarrow> string list \<Rightarrow> (string \<times> cell) list" where
  "project_spec record columns =
     map (\<lambda>col. (header_of col, Own (Str (or_empty (obj_get record col))))) columns"

text \<open>The invariant of the counters that the loop keeps.\<close>

definition stats_ok :: "CleaningStats \<Rightarrow> bool" where
  "stats_ok st = (totalProcessed st = totalValid st + breakdown_sum (invalidBreakdown st) \<and>
     invalidBreakdown st VALID = Some 0 \<and> invalidBreakdown st MISSING_MX = Some 0)"

section \<open>Normalization\<close>

lemma toLowerCase_char_idem: "toLowerCase_char (toLowerCase_char c) = toLowerCase_char c"
  by (simp add: toLowerCase_char_def Let_def)

lemma isWhiteSpace_toLowerCase_char: "isWhiteSpace (toLowerCase_char c) = isWhiteSpace c"
  by (simp add: toLowerCase_char_def isWhiteSpace_def Let_def)

lemma toLowerCase_char_eq_at: "(toLowerCase_char c = CHR ''@'') = (c = CHR ''@'')"
proof -
  have "(toLowerCase_char c = CHR ''@'') = ((of_char (toLowerCase_char c) :: nat) = of_char (CHR ''@''))"
    by (simp only: of_char_eq_iff)
  also have "\<dots> = ((of_char c :: nat) = of_char (CHR ''@''))"
    by (auto simp add: toLowerCase_char_def Let_def)
  also have "\<dots> = (c = CHR ''@'')"
    by (simp only: of_char_eq_iff)
  finally show ?thesis .
qed

lemma toLowerCase_idem: "toLowerCase (toLowerCase s) = toLowerCase s"
  by (simp add: toLowerCase_def toLowerCase_char_idem)

lemma at_in_toLowerCase: "(CHR ''@'' \<in> set (toLowerCase s)) = (CHR ''@'' \<in> set s)"
proof -
  have "(CHR ''@'' \<in> toLowerCase_char ` set s) = (\<exists>x\<in>set s. toLowerCase_char x = CHR ''@'')"
    by (force simp: image_iff)
  then show ?thesis
    by (simp add: toLowerCase_def toLowerCase_char_eq_at)
qed

lemma in_set_dropWhile_iff: "\<not> P x \<Longrightarrow> (x \<in> set (dropWhile P xs)) = (x \<in> set xs)"
  by (induction xs) auto

lemma not_isWhiteSpace_at: "\<not> isWhiteSpace (CHR ''@'')"
  by (simp add: isWhiteSpace_def)

lemma at_in_trim: "(CHR ''@'' \<in> set (trim s)) = (CHR ''@'' \<in> set s)"
  by (simp add: trim_def in_set_dropWhile_iff not_isWhiteSpace_at)

lemma dropWhile_rev_head:
  assumes "xs = [] \<or> \<not> P (hd xs)"
  shows "dropWhile P (rev (dropWhile P (rev xs))) = rev (dropWhile P (rev xs))"
proof (cases "dropWhile P (rev xs) = []")
  case True
  then show ?thesis by (metis dropWhile.simps(1) rev.simps(1))
next
  case False
  have "rev xs = takeWhile P (rev xs) @ dropWhile P (rev xs)" by simp
  then have "xs = rev (dropWhile P (rev xs)) @ rev (takeWhile P (rev xs))"
    by (metis rev_append rev_rev_ident)
  with False have "hd (rev (dropWhile P (rev xs))) = hd xs" "xs \<noteq> []"
    by (metis hd_append2 rev_is_Nil_conv, metis append_is_Nil_conv rev_is_Nil_conv)
  with assms False show ?thesis
    by (simp add: dropWhile_eq_self_iff)
qed

lemma trim_idem: "trim (trim s) = trim s"
proof -
  have h: "dropWhile isWhiteSpace s = [] \<or> \<not> isWhiteSpace (hd (dropWhile isWhiteSpace s))"
    using hd_dropWhile [of isWhiteSpace s] by blast
  show ?thesis
    unfolding trim_def
    using dropWhile_rev_head [where P = isWhiteSpace and xs = "dropWhile isWhiteSpace s", OF h]
    by simp
qed

lemma trim_toLowerCase: "trim (toLowerCase s) = toLowerCase (trim s)"
proof -
  have c: "isWhiteSpace \<circ> toLowerCase_char = isWhiteSpace"
    by (rule ext) (simp add: isWhiteSpace_toLowerCase_char)
  show ?thesis
    by (simp add: trim_def toLowerCase_def dropWhile_map rev_map c)
qed

lemma normalize_idem: "trim (toLowerCase (trim (toLowerCase s))) = trim (toLowerCase s)"
  by (simp add: trim_toLowerCase toLowerCase_idem trim_idem)

lemma str_includes_char: "str_includes s [c] = (c \<in> set s)"
proof (induction s)
  case Nil
  then show ?case by simp
next
  case (Cons a s)
  have "startsWith (a # s) [c] = (a = c)"
    by (cases s) simp_all
  with Cons show ?case by auto
qed

lemma trim_Nil: "trim [] = []"
  by (simp add: trim_def)

section \<open>The syntax pattern and the classifier\<close>

lemma not_isLocalChar_at: "\<not> isLocalChar (CHR ''@'')"
  by (simp add: isLocalChar_def isAlpha_def isDigit_def)

lemma not_isDomainChar_at: "\<not> isDomainChar (CHR ''@'')"
  by (simp add: isDomainChar_def isAlpha_def isDigit_def)

lemma not_isAlpha_dot: "\<not> isAlpha (CHR ''.'')"
  by (simp add: isAlpha_def)

lemma isAlpha_isDomainChar: "isAlpha c \<Longrightarrow> isDomainChar c"
  by (simp add: isDomainChar_def)

lemma isDomainChar_dot: "isDomainChar (CHR ''.'')"
  by (simp add: isDomainChar_def)

lemma takeWhile_stop: "\<forall>y\<in>set l. P y \<Longrightarrow> \<not> P x \<Longrightarrow> takeWhile P (l @ x # r) = l"
  by (induction l) auto

lemma dropWhile_stop: "\<forall>y\<in>set l. P y \<Longrightarrow> \<not> P x \<Longrightarrow> dropWhile P (l @ x # r) = x # r"
  by (induction l) auto

lemma EMAIL_REGEX_test_imp_lang:
  assumes "EMAIL_REGEX_test s"
  shows "EMAIL_REGEX_lang s"
proof -
  define l where "l = takeWhile isLocalChar s"
  define r where "r = dropWhile isLocalChar s"
  have s: "s = l @ r" by (simp add: l_def r_def)
  from assms have body: "l \<noteq> [] \<and>
      (case r of [] \<Rightarrow> False
       | c # host \<Rightarrow> c = CHR ''@'' \<and>
           2 \<le> length (rev (takeWhile isAlpha (rev host))) \<and>
           rev (dropWhile isAlpha (rev host)) \<noteq> [] \<and>
           last (rev (dropWhile isAlpha (rev host))) = CHR ''.'' \<and>
           butlast (rev (dropWhile isAlpha (rev host))) \<noteq> [] \<and>
           list_all isDomainChar (butlast (rev (dropWhile isAlpha (rev host)))))"
    unfolding EMAIL_REGEX_test_def l_def r_def Let_def .
  then have l: "l \<noteq> []" and r: "r \<noteq> []" by auto
  then obtain c host where rc: "r = c # host" by (cases r) auto
  define t where "t = rev (takeWhile isAlpha (rev host))"
  define pre where "pre = rev (dropWhile isAlpha (rev host))"
  from body rc have c: "c = CHR ''@''" and t2: "2 \<le> length t" and pre: "pre \<noteq> []"
    and lp: "last pre = CHR ''.''" and d: "butlast pre \<noteq> []"
    and dall: "list_all isDomainChar (butlast pre)"
    unfolding t_def pre_def by simp_all
  have "rev (takeWhile isAlpha (rev host) @ dropWhile isAlpha (rev host)) = host"
    by (simp only: takeWhile_dropWhile_id rev_rev_ident)
  then have host: "host = pre @ t"
    by (simp only: pre_def t_def rev_append)
  from pre lp have "pre = butlast pre @ ''.''"
    by (metis append_butlast_last_id)
  with host have host': "host = butlast pre @ ''.'' @ t" by simp
  have lall: "list_all isLocalChar l"
    by (auto simp add: l_def list_all_iff dest: set_takeWhileD)
  have tall: "list_all isAlpha t"
    by (auto simp add: t_def list_all_iff dest: set_takeWhileD)
  from s rc c host' have "s = l @ ''@'' @ butlast pre @ ''.'' @ t" by simp
  with l lall d dall t2 tall show ?thesis
    unfolding EMAIL_REGEX_lang_def by blast
qed

lemma EMAIL_REGEX_lang_imp_test:
  assumes "EMAIL_REGEX_lang s"
  shows "EMAIL_REGEX_test s"
proof -
  from assms obtain l d t where s: "s = l @ ''@'' @ d @ ''.'' @ t"
    and l: "l \<noteq> []" and lall: "list_all isLocalChar l"
    and d: "d \<noteq> []" and dall: "list_all isDomainChar d"
    and t2: "2 \<le> length t" and tall: "list_all isAlpha t"
    unfolding EMAIL_REGEX_lang_def by blast
  have tw: "takeWhile isLocalChar s = l"
    using lall by (simp add: s list_all_iff not_isLocalChar_at takeWhile_stop)
  have dw: "dropWhile isLocalChar s = CHR ''@'' # d @ ''.'' @ t"
    using lall by (simp add: s list_all_iff not_isLocalChar_at dropWhile_stop)
  have rh: "rev (d @ ''.'' @ t) = rev t @ CHR ''.'' # rev d" by simp
  have tw2: "takeWhile isAlpha (rev (d @ ''.'' @ t)) = rev t"
    using tall unfolding rh by (simp add: list_all_iff not_isAlpha_dot takeWhile_stop)
  have dw2: "dropWhile isAlpha (rev (d @ ''.'' @ t)) = CHR ''.'' # rev d"
    using tall unfolding rh by (simp add: list_all_iff not_isAlpha_dot dropWhile_stop)
  show ?thesis
    unfolding EMAIL_REGEX_test_def Let_def tw dw list.case tw2 dw2
    using l d dall t2 by simp
qed

lemma EMAIL_REGEX_test_iff_lang: "EMAIL_REGEX_test s = EMAIL_REGEX_lang s"
  using EMAIL_REGEX_test_imp_lang EMAIL_REGEX_lang_imp_test by blast

lemma split_no_sep: "sep \<notin> set r \<Longrightarrow> split sep r = [r]"
  by (induction r) auto

lemma split_first: "sep \<notin> set l \<Longrightarrow> split sep (l @ sep # r) = l # split sep r"
  by (induction l) auto

lemma EMAIL_REGEX_one_at:
  assumes "EMAIL_REGEX_test s"
  shows "\<exists>l h. s = l @ CHR ''@'' # h \<and> CHR ''@'' \<notin> set l \<and> CHR ''@'' \<notin> set h"
proof -
  from assms have "EMAIL_REGEX_lang s" by (rule EMAIL_REGEX_test_imp_lang)
  then obtain l d t where s: "s = l @ ''@'' @ d @ ''.'' @ t"
    and lall: "list_all isLocalChar l" and dall: "list_all isDomainChar d"
    and tall: "list_all isAlpha t"
    unfolding EMAIL_REGEX_lang_def by blast
  have 1: "CHR ''@'' \<notin> set l"
    using lall not_isLocalChar_at by (auto simp add: list_all_iff)
  have 2: "CHR ''@'' \<notin> set d"
    using dall not_isDomainChar_at by (auto simp add: list_all_iff)
  have 3: "CHR ''@'' \<notin> set t"
    using tall not_isDomainChar_at isAlpha_isDomainChar by (auto simp add: list_all_iff)
  from 2 3 have "CHR ''@'' \<notin> set (d @ ''.'' @ t)" by simp
  with s 1 show ?thesis by (intro exI [of _ l] exI [of _ "d @ ''.'' @ t"]) simp
qed

lemma EMAIL_REGEX_parts:
  assumes "EMAIL_REGEX_test s"
  shows "split CHR ''@'' s =
           [takeWhile (\<lambda>c. c \<noteq> CHR ''@'') s, tl (dropWhile (\<lambda>c. c \<noteq> CHR ''@'') s)]"
proof -
  from EMAIL_REGEX_one_at [OF assms] obtain l h
    where s: "s = l @ CHR ''@'' # h" and l: "CHR ''@'' \<notin> set l" and h: "CHR ''@'' \<notin> set h"
    by blast
  have "split CHR ''@'' s = [l, h]"
    by (simp add: s split_first [OF l] split_no_sep [OF h])
  moreover have "takeWhile (\<lambda>c. c \<noteq> CHR ''@'') s = l"
    using l unfolding s by (intro takeWhile_stop) auto
  moreover have "dropWhile (\<lambda>c. c \<noteq> CHR ''@'') s = CHR ''@'' # h"
    using l unfolding s by (intro dropWhile_stop) auto
  ultimately show ?thesis by simp
qed

lemma EMAIL_REGEX_has_at: "EMAIL_REGEX_test s \<Longrightarrow> CHR ''@'' \<in> set s"
  using EMAIL_REGEX_one_at by fastforce

lemma validateEmail_normalized:
  "validateEmail (trim (toLowerCase s)) = validateEmail s"
proof (cases "CHR ''@'' \<in> set s")
  case True
  then have n: "CHR ''@'' \<in> set (trim (toLowerCase s))"
    by (simp add: at_in_trim at_in_toLowerCase)
  then have "trim (toLowerCase s) \<noteq> []" by auto
  moreover from True have "s \<noteq> []" by auto
  ultimately show ?thesis
    using True n by (simp add: validateEmail_def str_includes_char normalize_idem)
next
  case False
  then have "CHR ''@'' \<notin> set (trim (toLowerCase s))"
    by (simp add: at_in_trim at_in_toLowerCase)
  with False show ?thesis
    by (simp add: validateEmail_def str_includes_char)
qed

text \<open>
  C8: the classifier normalizes its input itself. Classifying a string and classifying
  its lowercased and trimmed form give the same status, for every string; the string
  \<open>"  Foo@BAR.com  "\<close> has the normalized form \<open>"foo@bar.com"\<close> and the two receive the
  same status.
\<close>

theorem classifier_normalizes_input:
  "(\<forall>s. validateEmail s = validateEmail (trim (toLowerCase s))) \<and>
   trim (toLowerCase ''  Foo@BAR.com  '') = ''foo@bar.com'' \<and>
   validateEmail ''  Foo@BAR.com  '' = validateEmail ''foo@bar.com''"
proof (intro conjI allI)
  fix s
  show "validateEmail s = validateEmail (trim (toLowerCase s))"
    by (simp add: validateEmail_normalized)
next
  show "trim (toLowerCase ''  Foo@BAR.com  '') = ''foo@bar.com''"
    by code_simp
next
  show "validateEmail ''  Foo@BAR.com  '' = validateEmail ''foo@bar.com''"
    by code_simp
qed

theorem classifier_normalizes_input_witness:
  "validateEmail '' Sales@Test.COM'' = validateEmail (trim (toLowerCase '' Sales@Test.COM'')) \<and>
   validateEmail '' Sales@Test.COM'' = TYPO_DOMAIN"
proof
  show "validateEmail '' Sales@Test.COM'' = validateEmail (trim (toLowerCase '' Sales@Test.COM''))"
    using classifier_normalizes_input by blast
  show "validateEmail '' Sales@Test.COM'' = TYPO_DOMAIN"
    by code_simp
qed

text \<open>
  C1: for every string whose normalized form matches the syntax pattern, the status is
  decided by the membership checks in the order typo domain, disposable domain, role
  prefix, the first that holds winning, where the local part is what stands before the
  \<open>@\<close> of the normalized form and the domain what stands after it. The address
  \<open>admin@gmal.com\<close> has its domain in the typo set and its local part in the role set, and
  is classified \<open>TYPO_DOMAIN\<close>.
\<close>

theorem classifier_priority_order:
  "(\<forall>s. EMAIL_REGEX_test (trim (toLowerCase s)) \<longrightarrow>
        validateEmail s =
          (let lowerEmail = trim (toLowerCase s);
               localPart = takeWhile (\<lambda>c. c \<noteq> CHR ''@'') lowerEmail;
               domain = tl (dropWhile (\<lambda>c. c \<noteq> CHR ''@'') lowerEmail)
           in if domain \<in> TYPO_DOMAINS then TYPO_DOMAIN
              else if domain \<in> DISPOSABLE_DOMAINS then DISPOSABLE
              else if localPart \<in> ROLE_PREFIXES then ROLE_BASED
              else VALID)) \<and>
   ''gmal.com'' \<in> TYPO_DOMAINS \<and> ''admin'' \<in> ROLE_PREFIXES \<and>
   validateEmail ''admin@gmal.com'' = TYPO_DOMAIN"
proof (intro conjI allI impI)
  fix s
  assume re: "EMAIL_REGEX_test (trim (toLowerCase s))"
  then have "CHR ''@'' \<in> set (trim (toLowerCase s))" by (rule EMAIL_REGEX_has_at)
  then have at: "CHR ''@'' \<in> set s" by (simp add: at_in_trim at_in_toLowerCase)
  then have ne: "s \<noteq> []" by auto
  show "validateEmail s =
          (let lowerEmail = trim (toLowerCase s);
               localPart = takeWhile (\<lambda>c. c \<noteq> CHR ''@'') lowerEmail;
               domain = tl (dropWhile (\<lambda>c. c \<noteq> CHR ''@'') lowerEmail)
           in if domain \<in> TYPO_DOMAINS then TYPO_DOMAIN
              else if domain \<in> DISPOSABLE_DOMAINS then DISPOSABLE
              else if localPart \<in> ROLE_PREFIXES then ROLE_BASED
              else VALID)"
    using re at ne
    by (simp add: validateEmail_def str_includes_char EMAIL_REGEX_parts [OF re] nth_opt_def
        has_def Let_def)
next
  show "''gmal.com'' \<in> TYPO_DOMAINS" by (simp add: TYPO_DOMAINS_def)
next
  show "''admin'' \<in> ROLE_PREFIXES" by (simp add: ROLE_PREFIXES_def)
next
  show "validateEmail ''admin@gmal.com'' = TYPO_DOMAIN" by code_simp
qed

theorem classifier_priority_order_witness:
  "EMAIL_REGEX_test (trim (toLowerCase '' Support@Mailinator.com'')) \<and>
   validateEmail '' Support@Mailinator.com'' = DISPOSABLE"
proof -
  have re: "EMAIL_REGEX_test (trim (toLowerCase '' Support@Mailinator.com''))"
    by code_simp
  have n: "trim (toLowerCase '' Support@Mailinator.com'') = ''support@mailinator.com''"
    by code_simp
  have "validateEmail '' Support@Mailinator.com'' =
          (let lowerEmail = trim (toLowerCase '' Support@Mailinator.com'');
               localPart = takeWhile (\<lambda>c. c \<noteq> CHR ''@'') lowerEmail;
               domain = tl (dropWhile (\<lambda>c. c \<noteq> CHR ''@'') lowerEmail)
           in if domain \<in> TYPO_DOMAINS then TYPO_DOMAIN
              else if domain \<in> DISPOSABLE_DOMAINS then DISPOSABLE
              else if localPart \<in> ROLE_PREFIXES then ROLE_BASED
              else VALID)"
    using classifier_priority_order re by blast
  then have "validateEmail '' Support@Mailinator.com'' = DISPOSABLE"
    unfolding n by (simp add: TYPO_DOMAINS_def DISPOSABLE_DOMAINS_def)
  with re show ?thesis by simp
qed

section \<open>The cleaning loop\<close>

lemma assignStatus_base_eq: "assignStatus_base uniq raw n = assignStatus uniq raw n"
  by (simp add: assignStatus_base_def assignStatus_def Let_def)

lemma processRow_unfold:
  "processRow st row =
     \<lparr>uniqueEmails = snd (assignStatus (uniqueEmails st) (rawEmailOf row) (normalizedEmailOf row)),
      processedRecords = processedRecords st @
        [makeRecord (rawEmailOf row) (normalizedEmailOf row) (extractName row) (rowStatus st row) row],
      cur_stats = updateStats ((cur_stats st)\<lparr>totalProcessed := totalProcessed (cur_stats st) + 1\<rparr>)
                    (rowStatus st row)\<rparr>"
  by (simp add: processRow_def rowStatus_def normalizedEmailOf_def Let_def split: prod.splits)

lemma uniqueEmails_processRow:
  "uniqueEmails (processRow st row) =
     (if rawEmailOf row = [] then uniqueEmails st
      else insert (normalizedEmailOf row) (uniqueEmails st))"
  by (auto simp add: processRow_unfold assignStatus_def)

lemma uniqueEmails_mono: "uniqueEmails st \<subseteq> uniqueEmails (processRow st row)"
  by (auto simp add: uniqueEmails_processRow)

lemma uniqueEmails_mono_foldl: "uniqueEmails st \<subseteq> uniqueEmails (foldl processRow st rows)"
proof (induction rows arbitrary: st)
  case Nil
  then show ?case by simp
next
  case (Cons row rows)
  have "uniqueEmails st \<subseteq> uniqueEmails (processRow st row)" by (rule uniqueEmails_mono)
  also have "\<dots> \<subseteq> uniqueEmails (foldl processRow (processRow st row) rows)" by (rule Cons.IH)
  finally show ?case by simp
qed

lemma rowStatus_cases:
  "rowStatus st row =
     (if rawEmailOf row = [] then INVALID_FORMAT
      else if normalizedEmailOf row \<in> uniqueEmails st then DUPLICATE
      else validateEmail (normalizedEmailOf row))"
  by (simp add: rowStatus_def assignStatus_def normalizedEmailOf_def)

lemma seen_before:
  assumes "i < j" and "j \<le> length rows" and "rawEmailOf (rows ! i) \<noteq> []"
  shows "normalizedEmailOf (rows ! i) \<in> uniqueEmails (foldl processRow st (take j rows))"
proof -
  from assms have i: "i < length (take j rows)" by simp
  define post where "post = drop (Suc i) (take j rows)"
  have a: "take j rows = take i (take j rows) @ (take j rows) ! i # post"
    unfolding post_def using i by (rule id_take_nth_drop)
  have b: "take i (take j rows) = take i rows"
    using assms(1) by (simp add: min_def)
  have c: "(take j rows) ! i = rows ! i"
    using assms(1) by simp
  have split: "take j rows = take i rows @ rows ! i # post"
    using a unfolding b c .
  have "normalizedEmailOf (rows ! i) \<in>
      uniqueEmails (processRow (foldl processRow st (take i rows)) (rows ! i))"
    using assms(3) by (simp add: uniqueEmails_processRow)
  also have "\<dots> \<subseteq>
      uniqueEmails (foldl processRow (processRow (foldl processRow st (take i rows)) (rows ! i)) post)"
    by (rule uniqueEmails_mono_foldl)
  also have "\<dots> = uniqueEmails (foldl processRow st (take j rows))"
    unfolding split by simp
  finally show ?thesis .
qed

lemma later_duplicate:
  assumes "i < j" and "j < length rows"
    and "rawEmailOf (rows ! i) \<noteq> []" and "rawEmailOf (rows ! j) \<noteq> []"
    and "normalizedEmailOf (rows ! i) = normalizedEmailOf (rows ! j)"
  shows "rowStatus (foldl processRow st (take j rows)) (rows ! j) = DUPLICATE"
proof -
  have "normalizedEmailOf (rows ! i) \<in> uniqueEmails (foldl processRow st (take j rows))"
    using assms by (intro seen_before) simp_all
  with assms show ?thesis by (simp add: rowStatus_cases)
qed

lemma trim_whitespace:
  assumes "list_all isWhiteSpace s"
  shows "trim (toLowerCase s) = []"
proof -
  from assms have "\<forall>c\<in>set (toLowerCase s). isWhiteSpace c"
    by (simp add: toLowerCase_def list_all_iff isWhiteSpace_toLowerCase_char)
  then have "dropWhile isWhiteSpace (toLowerCase s) = []"
    by simp
  then show ?thesis
    by (simp only: trim_def rev.simps dropWhile.simps)
qed

lemma validateEmail_Nil: "validateEmail [] = INVALID_FORMAT"
  by (simp add: validateEmail_def)

text \<open>The sum over the seven statuses is the sum of the values of the breakdown.\<close>

lemma breakdown_sum_dom: "breakdown_sum m = (\<Sum>s\<in>dom m. the (m s))"
proof -
  have d: "distinct all_statuses" by (simp add: all_statuses_def)
  have u: "set all_statuses = UNIV"
  proof -
    have "s \<in> set all_statuses" for s
      by (cases s) (simp_all add: all_statuses_def)
    then show ?thesis by blast
  qed
  have fin: "finite (UNIV :: EmailStatus set)"
    using u by (metis List.finite_set)
  have "breakdown_sum m = (\<Sum>s\<in>UNIV. case m s of None \<Rightarrow> 0 | Some n \<Rightarrow> n)"
    unfolding breakdown_sum_def using d u by (simp add: sum_list_distinct_conv_sum_set)
  also have "\<dots> = (\<Sum>s\<in>dom m. case m s of None \<Rightarrow> 0 | Some n \<Rightarrow> n)"
    using fin by (intro sum.mono_neutral_right) (auto split: option.splits)
  also have "\<dots> = (\<Sum>s\<in>dom m. the (m s))"
    by (rule sum.cong) auto
  finally show ?thesis .
qed

lemma breakdown_sum_upd:
  "breakdown_sum (m(s \<mapsto> Suc (or_zero (m s)))) = Suc (breakdown_sum m)"
  by (cases s; cases "m s") (simp_all add: breakdown_sum_def all_statuses_def or_zero_def)

lemma stats_ok_initial: "stats_ok initial_stats"
  by (simp add: stats_ok_def initial_stats_def breakdown_sum_def all_statuses_def)

lemma validateEmail_not_other:
  "validateEmail s \<noteq> MISSING_MX" "validateEmail s \<noteq> DUPLICATE"
  by (simp_all add: validateEmail_def Let_def)

lemma rowStatus_not_MISSING_MX: "rowStatus st row \<noteq> MISSING_MX"
  by (simp add: rowStatus_cases validateEmail_not_other)

lemma stats_ok_step:
  assumes "stats_ok st" and "status \<noteq> MISSING_MX"
  shows "stats_ok (updateStats (st\<lparr>totalProcessed := Suc (totalProcessed st)\<rparr>) status)"
  using assms
  by (auto simp add: stats_ok_def updateStats_def Let_def breakdown_sum_upd)

lemma stats_ok_foldl:
  "stats_ok (cur_stats st) \<Longrightarrow> stats_ok (cur_stats (foldl processRow st rows))"
proof (induction rows arbitrary: st)
  case Nil
  then show ?case by simp
next
  case (Cons row rows)
  have "stats_ok (cur_stats (processRow st row))"
    using Cons.prems by (simp add: processRow_unfold stats_ok_step rowStatus_not_MISSING_MX)
  then show ?case using Cons.IH by simp
qed

lemma stats_ok_processFiles: "stats_ok (stats (processFiles files))"
  by (simp add: processFiles_def Let_def stats_ok_foldl initial_state_def stats_ok_initial)

text \<open>
  C4: after every run of the pipeline, \<open>totalProcessed\<close> is \<open>totalValid\<close> plus the sum of
  the values of \<open>invalidBreakdown\<close>, and the \<open>VALID\<close> key of the breakdown is still zero.
\<close>

theorem stats_totals_balance:
  "\<forall>files. totalProcessed (stats (processFiles files)) =
       totalValid (stats (processFiles files)) +
       breakdown_sum (invalidBreakdown (stats (processFiles files))) \<and>
     invalidBreakdown (stats (processFiles files)) VALID = Some 0"
  using stats_ok_processFiles by (simp add: stats_ok_def)

theorem stats_totals_balance_witness:
  "totalValid (stats (processFiles
      [(''a.csv'', Parsed [[(''Email'', Str ''bob@site.org'')], [(''Email'', Str ''nope'')]]),
       (''b.csv'', ParseFailed)])) = 1 \<and>
   breakdown_sum (invalidBreakdown (stats (processFiles
      [(''a.csv'', Parsed [[(''Email'', Str ''bob@site.org'')], [(''Email'', Str ''nope'')]]),
       (''b.csv'', ParseFailed)]))) = 1 \<and>
   totalProcessed (stats (processFiles
      [(''a.csv'', Parsed [[(''Email'', Str ''bob@site.org'')], [(''Email'', Str ''nope'')]]),
       (''b.csv'', ParseFailed)])) = 2"
proof -
  have v: "totalValid (stats (processFiles
      [(''a.csv'', Parsed [[(''Email'', Str ''bob@site.org'')], [(''Email'', Str ''nope'')]]),
       (''b.csv'', ParseFailed)])) = 1"
    by code_simp
  have b: "breakdown_sum (invalidBreakdown (stats (processFiles
      [(''a.csv'', Parsed [[(''Email'', Str ''bob@site.org'')], [(''Email'', Str ''nope'')]]),
       (''b.csv'', ParseFailed)]))) = 1"
    by code_simp
  from stats_totals_balance v b show ?thesis by simp
qed

text \<open>
  C2, as amended: deduplication is first-seen and case-insensitive over the whole run. A
  row whose raw email is not empty has its normalized email in the set after its step,
  whatever the classifier says, and the set never loses an element; such a row gets the
  classifier's verdict when its normalized email is not yet in the set and \<open>DUPLICATE\<close>
  when it is, so of two rows of a run with non-empty raw emails and the same normalized
  email the later one is \<open>DUPLICATE\<close>. A row whose raw email is empty is
  \<open>INVALID_FORMAT\<close>, whatever the set holds, and leaves the set as it is. The rows
  \<open>a@x.com\<close>, \<open>A@X.COM\<close>, \<open>a@x.com\<close> get \<open>VALID\<close>, \<open>DUPLICATE\<close>, \<open>DUPLICATE\<close>.
\<close>

theorem dedup_first_seen:
  "(\<forall>st row. rawEmailOf row \<noteq> [] \<longrightarrow>
       normalizedEmailOf row \<in> uniqueEmails (processRow st row)) \<and>
   (\<forall>st rows. uniqueEmails st \<subseteq> uniqueEmails (foldl processRow st rows)) \<and>
   (\<forall>st row. rawEmailOf row \<noteq> [] \<and> normalizedEmailOf row \<notin> uniqueEmails st \<longrightarrow>
       rowStatus st row = validateEmail (normalizedEmailOf row)) \<and>
   (\<forall>st row. rawEmailOf row \<noteq> [] \<and> normalizedEmailOf row \<in> uniqueEmails st \<longrightarrow>
       rowStatus st row = DUPLICATE) \<and>
   (\<forall>rows i j. i < j \<and> j < length rows \<and>
       rawEmailOf (rows ! i) \<noteq> [] \<and> rawEmailOf (rows ! j) \<noteq> [] \<and>
       normalizedEmailOf (rows ! i) = normalizedEmailOf (rows ! j) \<longrightarrow>
       rowStatus (foldl processRow initial_state (take j rows)) (rows ! j) = DUPLICATE) \<and>
   (\<forall>st row. rawEmailOf row = [] \<longrightarrow>
       rowStatus st row = INVALID_FORMAT \<and>
       uniqueEmails (processRow st row) = uniqueEmails st) \<and>
   map (\<lambda>r. obj_get r ''status'')
     (processedRecords (foldl processRow initial_state (consolidate
        [(''list.csv'', Parsed [[(''Email'', Str ''a@x.com'')], [(''Email'', Str ''A@X.COM'')],
                               [(''Email'', Str ''a@x.com'')]])]))) =
     [Str ''VALID'', Str ''DUPLICATE'', Str ''DUPLICATE'']"
proof (intro conjI allI impI)
  fix st :: loop_state and row
  assume "rawEmailOf row \<noteq> []"
  then show "normalizedEmailOf row \<in> uniqueEmails (processRow st row)"
    by (simp add: uniqueEmails_processRow)
next
  fix st rows
  show "uniqueEmails st \<subseteq> uniqueEmails (foldl processRow st rows)"
    by (rule uniqueEmails_mono_foldl)
next
  fix st :: loop_state and row
  assume "rawEmailOf row \<noteq> [] \<and> normalizedEmailOf row \<notin> uniqueEmails st"
  then show "rowStatus st row = validateEmail (normalizedEmailOf row)"
    by (simp add: rowStatus_cases)
next
  fix st :: loop_state and row
  assume "rawEmailOf row \<noteq> [] \<and> normalizedEmailOf row \<in> uniqueEmails st"
  then show "rowStatus st row = DUPLICATE"
    by (simp add: rowStatus_cases)
next
  fix rows :: "obj list" and i j
  assume "i < j \<and> j < length rows \<and>
       rawEmailOf (rows ! i) \<noteq> [] \<and> rawEmailOf (rows ! j) \<noteq> [] \<and>
       normalizedEmailOf (rows ! i) = normalizedEmailOf (rows ! j)"
  then show "rowStatus (foldl processRow initial_state (take j rows)) (rows ! j) = DUPLICATE"
    by (intro later_duplicate [of i j]) simp_all
next
  fix st :: loop_state and row
  assume h: "rawEmailOf row = []"
  then show "rowStatus st row = INVALID_FORMAT"
    by (simp add: rowStatus_cases)
  from h show "uniqueEmails (processRow st row) = uniqueEmails st"
    by (simp add: uniqueEmails_processRow)
next
  show "map (\<lambda>r. obj_get r ''status'')
     (processedRecords (foldl processRow initial_state (consolidate
        [(''list.csv'', Parsed [[(''Email'', Str ''a@x.com'')], [(''Email'', Str ''A@X.COM'')],
                               [(''Email'', Str ''a@x.com'')]])]))) =
     [Str ''VALID'', Str ''DUPLICATE'', Str ''DUPLICATE'']"
    by code_simp
qed

theorem dedup_first_seen_witness:
  "rawEmailOf [(''Email'', Str ''bob@site.org'')] \<noteq> [] \<and>
   normalizedEmailOf [(''Email'', Str ''bob@site.org'')] \<notin> uniqueEmails initial_state \<and>
   rowStatus initial_state [(''Email'', Str ''bob@site.org'')] =
     validateEmail (normalizedEmailOf [(''Email'', Str ''bob@site.org'')]) \<and>
   normalizedEmailOf [(''Email'', Str ''bob@site.org'')] \<in>
     uniqueEmails (processRow initial_state [(''Email'', Str ''bob@site.org'')]) \<and>
   rawEmailOf [(''Email Address'', Str '' Bob@Site.org'')] \<noteq> [] \<and>
   normalizedEmailOf [(''Email Address'', Str '' Bob@Site.org'')] =
     normalizedEmailOf [(''Email'', Str ''bob@site.org'')] \<and>
   rowStatus (processRow initial_state [(''Email'', Str ''bob@site.org'')])
     [(''Email Address'', Str '' Bob@Site.org'')] = DUPLICATE \<and>
   rowStatus (foldl processRow initial_state
       (take 1 [[(''Email'', Str ''bob@site.org'')], [(''Email Address'', Str '' Bob@Site.org'')]]))
     ([[(''Email'', Str ''bob@site.org'')], [(''Email Address'', Str '' Bob@Site.org'')]] ! 1) =
     DUPLICATE \<and>
   rawEmailOf [(''Email'', Str []), (''Name'', Str ''Bob'')] = [] \<and>
   rowStatus (processRow initial_state [(''Email'', Str ''bob@site.org'')])
     [(''Email'', Str []), (''Name'', Str ''Bob'')] = INVALID_FORMAT \<and>
   uniqueEmails (processRow (processRow initial_state [(''Email'', Str ''bob@site.org'')])
     [(''Email'', Str []), (''Name'', Str ''Bob'')]) =
     uniqueEmails (processRow initial_state [(''Email'', Str ''bob@site.org'')])"
proof -
  let ?r0 = "[(''Email'', Str ''bob@site.org'')]"
  let ?r1 = "[(''Email Address'', Str '' Bob@Site.org'')]"
  have a0: "rawEmailOf ?r0 \<noteq> []" by code_simp
  have a1: "rawEmailOf ?r1 \<noteq> []" by code_simp
  have n: "normalizedEmailOf ?r1 = normalizedEmailOf ?r0" by code_simp
  have f: "normalizedEmailOf ?r0 \<notin> uniqueEmails initial_state" by code_simp
  have c1: "normalizedEmailOf ?r0 \<in> uniqueEmails (processRow initial_state ?r0)"
    by (rule dedup_first_seen [THEN conjunct1, rule_format, OF a0])
  have c3: "rowStatus initial_state ?r0 = validateEmail (normalizedEmailOf ?r0)"
    by (rule dedup_first_seen [THEN conjunct2, THEN conjunct2, THEN conjunct1, rule_format,
          OF conjI [OF a0 f]])
  from c1 n have m: "normalizedEmailOf ?r1 \<in> uniqueEmails (processRow initial_state ?r0)"
    by simp
  have c4: "rowStatus (processRow initial_state ?r0) ?r1 = DUPLICATE"
    by (rule dedup_first_seen [THEN conjunct2, THEN conjunct2, THEN conjunct2, THEN conjunct1,
          rule_format, OF conjI [OF a1 m]])
  have h5: "(0::nat) < 1 \<and> 1 < length [?r0, ?r1] \<and>
      rawEmailOf ([?r0, ?r1] ! 0) \<noteq> [] \<and> rawEmailOf ([?r0, ?r1] ! 1) \<noteq> [] \<and>
      normalizedEmailOf ([?r0, ?r1] ! 0) = normalizedEmailOf ([?r0, ?r1] ! 1)"
    using a0 a1 n by simp
  have c5: "rowStatus (foldl processRow initial_state (take 1 [?r0, ?r1]))
      ([?r0, ?r1] ! 1) = DUPLICATE"
    by (rule dedup_first_seen [THEN conjunct2, THEN conjunct2, THEN conjunct2, THEN conjunct2,
          THEN conjunct1, rule_format, OF h5])
  have z: "rawEmailOf [(''Email'', Str []), (''Name'', Str ''Bob'')] = []"
    by code_simp
  have "rowStatus (processRow initial_state ?r0) [(''Email'', Str []), (''Name'', Str ''Bob'')] =
      INVALID_FORMAT \<and>
    uniqueEmails (processRow (processRow initial_state ?r0)
      [(''Email'', Str []), (''Name'', Str ''Bob'')]) = uniqueEmails (processRow initial_state ?r0)"
    by (rule dedup_first_seen [THEN conjunct2, THEN conjunct2, THEN conjunct2, THEN conjunct2,
          THEN conjunct2, THEN conjunct1, rule_format, OF z])
  then have c6: "rowStatus (processRow initial_state ?r0)
      [(''Email'', Str []), (''Name'', Str ''Bob'')] = INVALID_FORMAT"
    "uniqueEmails (processRow (processRow initial_state ?r0)
      [(''Email'', Str []), (''Name'', Str ''Bob'')]) = uniqueEmails (processRow initial_state ?r0)"
    by simp_all
  show ?thesis
    by (intro conjI a0 f c3 c1 a1 n c4 c5 z c6)
qed

text \<open>
  C2 as stated fails on a row with an empty raw email: after a row whose email cell is
  one space the set holds the empty string, which is the normalized email of a following
  row with an empty email cell, and that row is \<open>INVALID_FORMAT\<close>, not \<open>DUPLICATE\<close>. The
  rows have a second column, so neither line of the file is empty.
\<close>

theorem dedup_empty_raw_counterexample:
  "normalizedEmailOf [(''email'', Str []), (''name'', Str ''Bob'')] \<in>
     uniqueEmails (processRow initial_state [(''email'', Str '' ''), (''name'', Str ''Ann'')]) \<and>
   rowStatus (processRow initial_state [(''email'', Str '' ''), (''name'', Str ''Ann'')])
     [(''email'', Str []), (''name'', Str ''Bob'')] = INVALID_FORMAT \<and>
   totalDuplicates (stats (processFiles
     [(''list.csv'', Parsed [[(''email'', Str '' ''), (''name'', Str ''Ann'')],
                            [(''email'', Str []), (''name'', Str ''Bob'')]])])) = 0"
  by code_simp

text \<open>
  C10: a row whose raw email is not empty and is white space only is not short-circuited.
  Its normalized email is the empty string, which is looked up in the set and added to
  it: the row gets the classifier's verdict for the empty string, \<open>INVALID_FORMAT\<close>, when
  the empty string is not yet in the set, and \<open>DUPLICATE\<close> when it is, so every later such
  row of a run is \<open>DUPLICATE\<close>. The empty check is on the raw value: a row with an empty raw
  email is \<open>INVALID_FORMAT\<close> and leaves the set as it is.
\<close>

theorem whitespace_only_email:
  "(\<forall>st row. rawEmailOf row \<noteq> [] \<and> list_all isWhiteSpace (rawEmailOf row) \<longrightarrow>
       normalizedEmailOf row = [] \<and>
       rowStatus st row = (if [] \<in> uniqueEmails st then DUPLICATE else validateEmail []) \<and>
       uniqueEmails (processRow st row) = insert [] (uniqueEmails st)) \<and>
   validateEmail [] = INVALID_FORMAT \<and>
   (\<forall>rows i j. i < j \<and> j < length rows \<and>
       rawEmailOf (rows ! i) \<noteq> [] \<and> list_all isWhiteSpace (rawEmailOf (rows ! i)) \<and>
       rawEmailOf (rows ! j) \<noteq> [] \<and> list_all isWhiteSpace (rawEmailOf (rows ! j)) \<longrightarrow>
       rowStatus (foldl processRow initial_state (take j rows)) (rows ! j) = DUPLICATE) \<and>
   (\<forall>st row. rawEmailOf row = [] \<longrightarrow>
       rowStatus st row = INVALID_FORMAT \<and>
       uniqueEmails (processRow st row) = uniqueEmails st) \<and>
   map (\<lambda>r. obj_get r ''status'')
     (processedRecords (foldl processRow initial_state (consolidate
        [(''list.csv'', Parsed [[(''Email'', Str '' '')], [(''Email'', Str ''   '')]])]))) =
     [Str ''INVALID_FORMAT'', Str ''DUPLICATE'']"
proof (intro conjI allI impI)
  fix st :: loop_state and row
  assume h: "rawEmailOf row \<noteq> [] \<and> list_all isWhiteSpace (rawEmailOf row)"
  then show n: "normalizedEmailOf row = []"
    by (simp add: normalizedEmailOf_def trim_whitespace)
  from h n show "rowStatus st row = (if [] \<in> uniqueEmails st then DUPLICATE else validateEmail [])"
    by (simp add: rowStatus_cases)
  from h n show "uniqueEmails (processRow st row) = insert [] (uniqueEmails st)"
    by (simp add: uniqueEmails_processRow)
next
  show "validateEmail [] = INVALID_FORMAT" by (rule validateEmail_Nil)
next
  fix rows :: "obj list" and i j
  assume h: "i < j \<and> j < length rows \<and>
       rawEmailOf (rows ! i) \<noteq> [] \<and> list_all isWhiteSpace (rawEmailOf (rows ! i)) \<and>
       rawEmailOf (rows ! j) \<noteq> [] \<and> list_all isWhiteSpace (rawEmailOf (rows ! j))"
  then have "normalizedEmailOf (rows ! i) = normalizedEmailOf (rows ! j)"
    by (simp add: normalizedEmailOf_def trim_whitespace)
  with h show "rowStatus (foldl processRow initial_state (take j rows)) (rows ! j) = DUPLICATE"
    by (intro later_duplicate [of i j]) simp_all
next
  fix st :: loop_state and row
  assume h: "rawEmailOf row = []"
  then show "rowStatus st row = INVALID_FORMAT"
    by (simp add: rowStatus_cases)
  from h show "uniqueEmails (processRow st row) = uniqueEmails st"
    by (simp add: uniqueEmails_processRow)
next
  show "map (\<lambda>r. obj_get r ''status'')
     (processedRecords (foldl processRow initial_state (consolidate
        [(''list.csv'', Parsed [[(''Email'', Str '' '')], [(''Email'', Str ''   '')]])]))) =
     [Str ''INVALID_FORMAT'', Str ''DUPLICATE'']"
    by code_simp
qed

theorem whitespace_only_email_witness:
  "rawEmailOf [(''Email'', Str ''  '')] \<noteq> [] \<and>
   list_all isWhiteSpace (rawEmailOf [(''Email'', Str ''  '')]) \<and>
   normalizedEmailOf [(''Email'', Str ''  '')] = [] \<and>
   rowStatus initial_state [(''Email'', Str ''  '')] = INVALID_FORMAT \<and>
   uniqueEmails (processRow initial_state [(''Email'', Str ''  '')]) = {[]} \<and>
   rowStatus (foldl processRow initial_state
       (take 1 [[(''Email'', Str ''  '')], [(''Email'', Str ''  '')]]))
     ([[(''Email'', Str ''  '')], [(''Email'', Str ''  '')]] ! 1) = DUPLICATE \<and>
   rawEmailOf [(''Name'', Str ''Bob'')] = [] \<and>
   rowStatus (processRow initial_state [(''Email'', Str ''  '')]) [(''Name'', Str ''Bob'')] =
     INVALID_FORMAT \<and>
   uniqueEmails (processRow (processRow initial_state [(''Email'', Str ''  '')])
     [(''Name'', Str ''Bob'')]) = uniqueEmails (processRow initial_state [(''Email'', Str ''  '')])"
proof -
  let ?w = "[(''Email'', Str ''  '')]"
  let ?m = "[(''Name'', Str ''Bob'')]"
  have a1: "rawEmailOf ?w \<noteq> []" by code_simp
  have a2: "list_all isWhiteSpace (rawEmailOf ?w)" by code_simp
  have e: "uniqueEmails initial_state = {}"
    by (simp add: initial_state_def)
  have z: "rawEmailOf ?m = []" by code_simp
  have "normalizedEmailOf ?w = [] \<and>
     rowStatus initial_state ?w =
       (if [] \<in> uniqueEmails initial_state then DUPLICATE else validateEmail []) \<and>
     uniqueEmails (processRow initial_state ?w) = insert [] (uniqueEmails initial_state)"
    by (rule whitespace_only_email [THEN conjunct1, rule_format, OF conjI [OF a1 a2]])
  with e have c1: "normalizedEmailOf ?w = []" "rowStatus initial_state ?w = INVALID_FORMAT"
     "uniqueEmails (processRow initial_state ?w) = {[]}"
    by (simp_all add: validateEmail_Nil)
  have h3: "(0::nat) < 1 \<and> 1 < length [?w, ?w] \<and>
       rawEmailOf ([?w, ?w] ! 0) \<noteq> [] \<and> list_all isWhiteSpace (rawEmailOf ([?w, ?w] ! 0)) \<and>
       rawEmailOf ([?w, ?w] ! 1) \<noteq> [] \<and> list_all isWhiteSpace (rawEmailOf ([?w, ?w] ! 1))"
    using a1 a2 by simp
  have c3: "rowStatus (foldl processRow initial_state (take 1 [?w, ?w])) ([?w, ?w] ! 1) =
      DUPLICATE"
    by (rule whitespace_only_email [THEN conjunct2, THEN conjunct2, THEN conjunct1, rule_format,
          OF h3])
  have "rowStatus (processRow initial_state ?w) ?m = INVALID_FORMAT \<and>
     uniqueEmails (processRow (processRow initial_state ?w) ?m) =
       uniqueEmails (processRow initial_state ?w)"
    by (rule whitespace_only_email [THEN conjunct2, THEN conjunct2, THEN conjunct2,
          THEN conjunct1, rule_format, OF z])
  then have c4: "rowStatus (processRow initial_state ?w) ?m = INVALID_FORMAT"
     "uniqueEmails (processRow (processRow initial_state ?w) ?m) =
       uniqueEmails (processRow initial_state ?w)"
    by simp_all
  show ?thesis
    by (intro conjI a1 a2 c1 c3 z c4)
qed

text \<open>
  C3: the \<open>email\<close> property of an emitted record should be the lowercased and trimmed
  \<open>original\<close>. On a file whose column is named \<open>email\<close> the row, spread last, replaces the
  normalized value by the cell: the record below has \<open>email\<close> \<open>A@X.COM\<close>, not \<open>a@x.com\<close>.
\<close>

theorem email_field_overwritten_by_column:
  "validRecords (processFiles [(''list.csv'', Parsed [[(''email'', Str ''A@X.COM'')]])]) =
     [[(''original'', Str ''A@X.COM''), (''email'', Str ''A@X.COM''), (''name'', Str []),
       (''status'', Str ''VALID''), (''sourceFile'', Str ''list.csv''),
       (''_sourceFile'', Str ''list.csv'')]] \<and>
   trim (toLowerCase ''A@X.COM'') = ''a@x.com''"
  by code_simp

text \<open>
  C5: every emitted record should carry one of the seven statuses, and never
  \<open>MISSING_MX\<close>. On rows with a column named \<open>status\<close> the row, spread last, replaces the
  assigned status by the cell: the records below carry \<open>active\<close>, which is no status, and
  \<open>MISSING_MX\<close>; both rows were counted valid, and neither is among the valid records.
\<close>

theorem status_field_overwritten_by_column:
  "invalidRecords (processFiles
     [(''list.csv'', Parsed [[(''email'', Str ''ann@site.org''), (''status'', Str ''active'')],
                            [(''email'', Str ''joe@site.org''), (''status'', Str ''MISSING_MX'')]])]) =
     [[(''original'', Str ''ann@site.org''), (''email'', Str ''ann@site.org''), (''name'', Str []),
       (''status'', Str ''active''), (''sourceFile'', Str ''list.csv''),
       (''_sourceFile'', Str ''list.csv'')],
      [(''original'', Str ''joe@site.org''), (''email'', Str ''joe@site.org''), (''name'', Str []),
       (''status'', Str ''MISSING_MX''), (''sourceFile'', Str ''list.csv''),
       (''_sourceFile'', Str ''list.csv'')]] \<and>
   validRecords (processFiles
     [(''list.csv'', Parsed [[(''email'', Str ''ann@site.org''), (''status'', Str ''active'')],
                            [(''email'', Str ''joe@site.org''), (''status'', Str ''MISSING_MX'')]])]) = [] \<and>
   totalValid (stats (processFiles
     [(''list.csv'', Parsed [[(''email'', Str ''ann@site.org''), (''status'', Str ''active'')],
                            [(''email'', Str ''joe@site.org''), (''status'', Str ''MISSING_MX'')]])])) = 2 \<and>
   ''active'' \<notin> set (map status_str all_statuses)"
  by code_simp

text \<open>
  C6: a row with no email header should give a record with an empty \<open>original\<close> and the
  status \<open>INVALID_FORMAT\<close>. On a row with columns named \<open>original\<close> and \<open>status\<close> the row,
  spread last, replaces both: the record below has \<open>original\<close> \<open>web form\<close> and \<open>status\<close>
  \<open>lead\<close>.
\<close>

theorem missing_email_fields_overwritten:
  "findEmailKey [(''name'', Str ''Bob''), (''original'', Str ''web form''), (''status'', Str ''lead'')] = None \<and>
   invalidRecords (processFiles
     [(''crm.csv'', Parsed [[(''name'', Str ''Bob''), (''original'', Str ''web form''),
                           (''status'', Str ''lead'')]])]) =
     [[(''original'', Str ''web form''), (''email'', Str []), (''name'', Str ''Bob''),
       (''status'', Str ''lead''), (''sourceFile'', Str ''crm.csv''),
       (''_sourceFile'', Str ''crm.csv'')]]"
  by code_simp

section \<open>Objects and the emitted record\<close>

lemma map_of_update_in_place:
  "map_of (map (\<lambda>(a, b). if a = k then (a, v) else (a, b)) ob) k' =
     (if k' = k then (case map_of ob k of None \<Rightarrow> None | Some b \<Rightarrow> Some v) else map_of ob k')"
proof (induction ob)
  case Nil
  then show ?case by simp
next
  case (Cons p ob)
  obtain a b where p: "p = (a, b)" by (cases p)
  show ?case
  proof (cases "a = k")
    case True
    then show ?thesis using Cons.IH by (cases "k' = k") (simp_all add: p)
  next
    case False
    then show ?thesis using Cons.IH by (cases "k' = k") (simp_all add: p)
  qed
qed

lemma map_of_insert_index:
  "map_of ob k = None \<Longrightarrow>
   map_of (insert_index k v ob) k' = (if k' = k then Some v else map_of ob k')"
proof (induction ob)
  case Nil
  then show ?case by simp
next
  case (Cons p ob)
  obtain a b where p: "p = (a, b)" by (cases p)
  from Cons.prems have ak: "a \<noteq> k" and n: "map_of ob k = None"
    by (simp_all add: p split: if_splits)
  show ?case
  proof (cases "isArrayIndex a \<and> index_val a < index_val k")
    case True
    then show ?thesis using Cons.IH [OF n] ak by (cases "k' = k") (simp_all add: p)
  next
    case False
    then have "insert_index k v (p # ob) = (k, v) # p # ob"
      by (auto simp add: p)
    then show ?thesis using ak by (simp add: p)
  qed
qed

lemma map_of_append_fresh:
  "map_of ob k = None \<Longrightarrow>
   map_of (ob @ [(k, v)]) k' = (if k' = k then Some v else map_of ob k')"
  by (induction ob) (simp_all split: if_splits)

lemma obj_get_obj_set:
  "obj_get (obj_set ob k v) k' = (if k' = k then v else obj_get ob k')"
proof (cases "k \<in> set (map fst ob)")
  case True
  then have "map_of ob k \<noteq> None"
    by (simp add: map_of_eq_None_iff)
  then obtain b where "map_of ob k = Some b" by auto
  with True show ?thesis
    unfolding obj_get_def obj_set_def
    by (cases "k' = k") (simp_all add: map_of_update_in_place)
next
  case False
  then have n: "map_of ob k = None" by (simp add: map_of_eq_None_iff)
  show ?thesis
  proof (cases "isArrayIndex k")
    case True
    with False show ?thesis
      unfolding obj_get_def obj_set_def
      by (cases "k' = k") (simp_all add: map_of_insert_index [OF n])
  next
    case idx: False
    with False show ?thesis
      unfolding obj_get_def obj_set_def
      by (cases "k' = k") (simp_all add: map_of_append_fresh [OF n] del: map_of_append)
  qed
qed

lemma obj_get_obj_assign:
  "obj_get (obj_assign target src) k =
     (case map_of (rev src) k of None \<Rightarrow> obj_get target k | Some v \<Rightarrow> v)"
proof (induction src arbitrary: target)
  case Nil
  then show ?case by (simp add: obj_assign_def)
next
  case (Cons p src)
  obtain k0 v0 where p: "p = (k0, v0)" by (cases p)
  have "obj_assign target (p # src) = obj_assign (obj_set target k0 v0) src"
    by (simp add: obj_assign_def p)
  then show ?case
    using Cons.IH [of "obj_set target k0 v0"]
    by (auto simp add: obj_get_obj_set p map_add_def split: option.splits)
qed

lemma obj_get_Nil: "obj_get [] k = Undefined"
  by (simp add: obj_get_def)

lemma core_fields:
  "obj_get (obj_assign [] [(''original'', a), (''email'', b), (''name'', c), (''status'', d),
      (''sourceFile'', e)]) ''original'' = a"
  "obj_get (obj_assign [] [(''original'', a), (''email'', b), (''name'', c), (''status'', d),
      (''sourceFile'', e)]) ''email'' = b"
  "obj_get (obj_assign [] [(''original'', a), (''email'', b), (''name'', c), (''status'', d),
      (''sourceFile'', e)]) ''status'' = d"
  by (simp_all add: obj_get_obj_assign)

lemma makeRecord_original:
  "obj_get (makeRecord rawEmail normalizedEmail name status row) ''original'' =
     (case map_of (rev row) ''original'' of None \<Rightarrow> Str rawEmail | Some v \<Rightarrow> v)"
  unfolding makeRecord_def obj_get_obj_assign [where src = row] core_fields ..

lemma makeRecord_email:
  "obj_get (makeRecord rawEmail normalizedEmail name status row) ''email'' =
     (case map_of (rev row) ''email'' of None \<Rightarrow> Str normalizedEmail | Some v \<Rightarrow> v)"
  unfolding makeRecord_def obj_get_obj_assign [where src = row] core_fields ..

lemma makeRecord_status:
  "obj_get (makeRecord rawEmail normalizedEmail name status row) ''status'' =
     (case map_of (rev row) ''status'' of None \<Rightarrow> Str (status_str status) | Some v \<Rightarrow> v)"
  unfolding makeRecord_def obj_get_obj_assign [where src = row] core_fields ..

text \<open>
  What the emitted record holds: a computed property keeps its value exactly when the row
  has no column of that name.
\<close>

lemma emitted_record_fields:
  assumes "k \<notin> set (map fst row)"
  shows "k = ''original'' \<Longrightarrow> obj_get (makeRecord rawEmail normalizedEmail name status row) k = Str rawEmail"
    and "k = ''email'' \<Longrightarrow> obj_get (makeRecord rawEmail normalizedEmail name status row) k = Str normalizedEmail"
    and "k = ''status'' \<Longrightarrow>
      obj_get (makeRecord rawEmail normalizedEmail name status row) k = Str (status_str status)"
proof -
  from assms have n: "map_of (rev row) k = None"
    by (simp add: map_of_eq_None_iff)
  show "k = ''original'' \<Longrightarrow> obj_get (makeRecord rawEmail normalizedEmail name status row) k = Str rawEmail"
    using n by (simp add: makeRecord_original)
  show "k = ''email'' \<Longrightarrow> obj_get (makeRecord rawEmail normalizedEmail name status row) k = Str normalizedEmail"
    using n by (simp add: makeRecord_email)
  show "k = ''status'' \<Longrightarrow>
      obj_get (makeRecord rawEmail normalizedEmail name status row) k = Str (status_str status)"
    using n by (simp add: makeRecord_status)
qed

lemma emitted_record_overwritten:
  assumes "map_of (rev row) k = Some v"
  shows "obj_get (makeRecord rawEmail normalizedEmail name status row) k = v"
  using assms by (simp add: makeRecord_def obj_get_obj_assign)

lemma obj_set_fresh:
  "k \<notin> fst ` set ob \<Longrightarrow> \<not> isArrayIndex k \<Longrightarrow> obj_set ob k v = ob @ [(k, v)]"
  by (simp add: obj_set_def)

lemma header_of_other:
  "col \<noteq> ''email'' \<Longrightarrow> col \<noteq> ''name'' \<Longrightarrow> col \<noteq> ''status'' \<Longrightarrow> header_of col = col"
  by (simp add: header_of_def)

lemma or_empty_simps: "or_empty Undefined = []" "or_empty (Str s) = s"
  by (simp_all add: or_empty_def)

section \<open>The name resolver\<close>

lemma findIndex_first_with:
  "(case findIndex P (map toLowerCase (map fst row)) of
      None \<Rightarrow> first_with P row = None
    | Some i \<Rightarrow>
        first_with P row = Some (obj_get row (key_at (map fst row) (Some i))) \<and>
        P (toLowerCase (key_at (map fst row) (Some i))))"
proof (induction row)
  case Nil
  then show ?case by (simp add: first_with_def)
next
  case (Cons p row)
  obtain k v where p: "p = (k, v)" by (cases p)
  show ?case
  proof (cases "P (toLowerCase k)")
    case True
    then show ?thesis
      by (simp add: p first_with_def key_at_def nth_opt_def obj_get_def)
  next
    case False
    show ?thesis
    proof (cases "findIndex P (map toLowerCase (map fst row))")
      case None
      with Cons.IH False show ?thesis
        by (simp add: p first_with_def del: map_map)
    next
      case (Some i)
      with Cons.IH have fw: "first_with P row = Some (obj_get row (key_at (map fst row) (Some i)))"
        and pk: "P (toLowerCase (key_at (map fst row) (Some i)))"
        by simp_all
      have ka: "key_at (k # map fst row) (Some (Suc i)) = key_at (map fst row) (Some i)"
        by (simp add: key_at_def nth_opt_def)
      from pk False have ne: "key_at (map fst row) (Some i) \<noteq> k" by auto
      have "obj_get (p # row) (key_at (map fst row) (Some i)) =
              obj_get row (key_at (map fst row) (Some i))"
        using ne by (simp add: obj_get_def p)
      moreover have "first_with P (p # row) = first_with P row"
        using False by (simp add: first_with_def p)
      ultimately show ?thesis
        using False Some fw pk by (simp add: p ka del: map_map)
    qed
  qed
qed

lemma find_keys_first_with:
  "(case find (\<lambda>k. P (toLowerCase k)) (map fst row) of
      None \<Rightarrow> first_with P row = None
    | Some k \<Rightarrow> first_with P row = Some (obj_get row k) \<and> P (toLowerCase k))"
proof (induction row)
  case Nil
  then show ?case by (simp add: first_with_def)
next
  case (Cons p row)
  obtain k v where p: "p = (k, v)" by (cases p)
  show ?case
  proof (cases "P (toLowerCase k)")
    case True
    then show ?thesis
      by (simp add: p first_with_def obj_get_def)
  next
    case False
    show ?thesis
    proof (cases "find (\<lambda>k. P (toLowerCase k)) (map fst row)")
      case None
      with Cons.IH False show ?thesis
        by (simp add: p first_with_def)
    next
      case (Some k')
      with Cons.IH have fw: "first_with P row = Some (obj_get row k')"
        and pk: "P (toLowerCase k')"
        by simp_all
      from pk False have ne: "k' \<noteq> k" by auto
      then have "obj_get (p # row) k' = obj_get row k'"
        by (simp add: obj_get_def p)
      moreover have "first_with P (p # row) = first_with P row"
        using False by (simp add: first_with_def p)
      ultimately show ?thesis
        using False Some fw pk by (simp add: p)
    qed
  qed
qed

lemma mem_iff_findIndex: "(x \<in> set xs) = (findIndex (\<lambda>y. y = x) xs \<noteq> None)"
  by (induction xs) (auto split: option.splits)

lemma exact_header:
  "(x \<in> set (map toLowerCase (map fst row))) = (first_with (\<lambda>k. k = x) row \<noteq> None)"
  "x \<in> set (map toLowerCase (map fst row)) \<Longrightarrow>
     first_with (\<lambda>k. k = x) row =
       Some (obj_get row (key_at (map fst row) (indexOf (map toLowerCase (map fst row)) x)))"
proof -
  let ?L = "map toLowerCase (map fst row)"
  have m: "(x \<in> set ?L) = (findIndex (\<lambda>y. y = x) ?L \<noteq> None)"
    by (rule mem_iff_findIndex)
  show "(x \<in> set ?L) = (first_with (\<lambda>k. k = x) row \<noteq> None)"
    unfolding m using findIndex_first_with [of "\<lambda>k. k = x" row]
    by (cases "findIndex (\<lambda>y. y = x) ?L") (simp_all del: map_map)
  show "first_with (\<lambda>k. k = x) row = Some (obj_get row (key_at (map fst row) (indexOf ?L x)))"
    if "x \<in> set ?L"
    using that unfolding m indexOf_def using findIndex_first_with [of "\<lambda>k. k = x" row]
    by (cases "findIndex (\<lambda>y. y = x) ?L") (simp_all del: map_map)
qed

lemma not_isFuzzyName_Nil: "\<not> isFuzzyName (toLowerCase [])"
  by (simp add: isFuzzyName_def toLowerCase_def)

lemma fuzzy_step:
  "(case find (\<lambda>k. str_includes (toLowerCase k) ''name'' \<and>
                       \<not> str_includes (toLowerCase k) ''email'' \<and>
                       \<not> str_includes (toLowerCase k) ''file'') (map fst row) of
      None \<Rightarrow> []
    | Some fuzzyKey \<Rightarrow> (if fuzzyKey = [] then [] else or_empty (obj_get row fuzzyKey))) =
   (case first_with isFuzzyName row of Some v \<Rightarrow> or_empty v | None \<Rightarrow> [])"
proof -
  have e: "(\<lambda>k. str_includes (toLowerCase k) ''name'' \<and>
                       \<not> str_includes (toLowerCase k) ''email'' \<and>
                       \<not> str_includes (toLowerCase k) ''file'') = (\<lambda>k. isFuzzyName (toLowerCase k))"
    by (rule ext) (simp add: isFuzzyName_def)
  show ?thesis
    unfolding e
    using find_keys_first_with [of isFuzzyName row] not_isFuzzyName_Nil
    by (auto split: option.splits)
qed

lemma fallbacks_step:
  "(let firstIdx = findIndex (\<lambda>k. k = ''first name'' \<or> k = ''firstname'') (map toLowerCase (map fst row));
        lastIdx = findIndex (\<lambda>k. k = ''last name'' \<or> k = ''lastname'') (map toLowerCase (map fst row))
    in if firstIdx \<noteq> None \<and> lastIdx \<noteq> None
         then let first = or_empty (obj_get row (key_at (map fst row) firstIdx));
                  last = or_empty (obj_get row (key_at (map fst row) lastIdx))
              in trim (first @ '' '' @ last)
       else if firstIdx \<noteq> None
         then or_empty (obj_get row (key_at (map fst row) firstIdx))
       else
         (case find (\<lambda>k. let lower = toLowerCase k
                         in str_includes lower ''name'' \<and>
                            \<not> str_includes lower ''email'' \<and>
                            \<not> str_includes lower ''file'') (map fst row) of
            None \<Rightarrow> []
          | Some fuzzyKey \<Rightarrow>
              (if fuzzyKey = [] then [] else or_empty (obj_get row fuzzyKey)))) =
   name_fallbacks row"
proof -
  have f: "(\<lambda>k. k = ''first name'' \<or> k = ''firstname'') = isFirstName"
    by (rule ext) (simp add: isFirstName_def)
  have l: "(\<lambda>k. k = ''last name'' \<or> k = ''lastname'') = isLastName"
    by (rule ext) (simp add: isLastName_def)
  show ?thesis
    unfolding Let_def f l fuzzy_step name_fallbacks_def
    using findIndex_first_with [of isFirstName row] findIndex_first_with [of isLastName row]
    by (cases "findIndex isFirstName (map toLowerCase (map fst row))";
        cases "findIndex isLastName (map toLowerCase (map fst row))")
       (simp_all del: map_map)
qed

lemma extractName_eq_ordered: "extractName row = extractName_ordered row"
  unfolding extractName_def Let_def fallbacks_step [unfolded Let_def] extractName_ordered_def
  using exact_header [of "''name''" row] exact_header [of "''full name''" row]
    exact_header [of "''fullname''" row]
  by (cases "first_with (\<lambda>k. k = ''name'') row";
      cases "first_with (\<lambda>k. k = ''full name'') row";
      cases "first_with (\<lambda>k. k = ''fullname'') row")
     (simp_all del: map_map)

lemma lower_key_mem:
  "(a, b) \<in> set row \<Longrightarrow> toLowerCase a \<in> set (map toLowerCase (map fst row))"
  by force

lemma first_with_cong:
  assumes "\<And>k. k \<in> set (map toLowerCase (map fst row)) \<Longrightarrow> P k = Q k"
  shows "first_with P row = first_with Q row"
proof -
  have "find (\<lambda>(k, v). P (toLowerCase k)) row = find (\<lambda>(k, v). Q (toLowerCase k)) row"
  proof (rule find_cong [OF refl])
    fix x
    assume x: "x \<in> set row"
    obtain a b where ab: "x = (a, b)" by (cases x)
    from x ab have "toLowerCase a \<in> set (map toLowerCase (map fst row))"
      by (intro lower_key_mem [of a b]) simp
    then have "P (toLowerCase a) = Q (toLowerCase a)" by (rule assms)
    then show "(case x of (k, v) \<Rightarrow> P (toLowerCase k)) = (case x of (k, v) \<Rightarrow> Q (toLowerCase k))"
      by (simp add: ab)
  qed
  then show ?thesis by (simp add: first_with_def)
qed

lemma first_with_None:
  assumes "\<And>k. k \<in> set (map toLowerCase (map fst row)) \<Longrightarrow> \<not> P k"
  shows "first_with P row = None"
proof -
  have "first_with P row = first_with (\<lambda>k. False) row"
    using assms by (intro first_with_cong) simp
  also have "\<dots> = None"
    by (simp add: first_with_def find_None_iff)
  finally show ?thesis .
qed

lemma ordered_eq_spec:
  assumes "\<not> (''name'' \<in> set (map toLowerCase (map fst row)) \<and>
              ''full name'' \<in> set (map toLowerCase (map fst row)))"
    and "\<not> (''name'' \<in> set (map toLowerCase (map fst row)) \<and>
             ''fullname'' \<in> set (map toLowerCase (map fst row)))"
    and "\<not> (''full name'' \<in> set (map toLowerCase (map fst row)) \<and>
             ''fullname'' \<in> set (map toLowerCase (map fst row)))"
  shows "extractName_ordered row = extractName_spec row"
proof -
  let ?ks = "set (map toLowerCase (map fst row))"
  let ?any = "\<lambda>k. k \<in> {''name'', ''full name'', ''fullname''}"
  consider (n) "''name'' \<in> ?ks" "''full name'' \<notin> ?ks" "''fullname'' \<notin> ?ks"
    | (f) "''name'' \<notin> ?ks" "''full name'' \<in> ?ks" "''fullname'' \<notin> ?ks"
    | (u) "''name'' \<notin> ?ks" "''full name'' \<notin> ?ks" "''fullname'' \<in> ?ks"
    | (z) "''name'' \<notin> ?ks" "''full name'' \<notin> ?ks" "''fullname'' \<notin> ?ks"
    using assms by blast
  then show ?thesis
  proof cases
    case n
    have "first_with ?any row = first_with (\<lambda>k. k = ''name'') row"
      using n by (intro first_with_cong) blast
    moreover have "first_with (\<lambda>k. k = ''name'') row \<noteq> None"
      using n(1) exact_header(1) [of "''name''" row] by simp
    ultimately show ?thesis
      by (auto simp add: extractName_ordered_def extractName_spec_def)
  next
    case f
    have "first_with ?any row = first_with (\<lambda>k. k = ''full name'') row"
      using f by (intro first_with_cong) blast
    moreover have "first_with (\<lambda>k. k = ''full name'') row \<noteq> None"
      using f(2) exact_header(1) [of "''full name''" row] by simp
    moreover have "first_with (\<lambda>k. k = ''name'') row = None"
      using f(1) exact_header(1) [of "''name''" row] by simp
    ultimately show ?thesis
      by (auto simp add: extractName_ordered_def extractName_spec_def)
  next
    case u
    have "first_with ?any row = first_with (\<lambda>k. k = ''fullname'') row"
      using u by (intro first_with_cong) blast
    moreover have "first_with (\<lambda>k. k = ''name'') row = None"
      using u(1) exact_header(1) [of "''name''" row] by simp
    moreover have "first_with (\<lambda>k. k = ''full name'') row = None"
      using u(2) exact_header(1) [of "''full name''" row] by simp
    ultimately show ?thesis
      by (auto simp add: extractName_ordered_def extractName_spec_def split: option.splits)
  next
    case z
    have "first_with ?any row = None"
      using z by (intro first_with_None) blast
    moreover have "first_with (\<lambda>k. k = ''name'') row = None"
      using z(1) exact_header(1) [of "''name''" row] by simp
    moreover have "first_with (\<lambda>k. k = ''full name'') row = None"
      using z(2) exact_header(1) [of "''full name''" row] by simp
    moreover have "first_with (\<lambda>k. k = ''fullname'') row = None"
      using z(3) exact_header(1) [of "''fullname''" row] by simp
    ultimately show ?thesis
      by (simp add: extractName_ordered_def extractName_spec_def)
  qed
qed

lemma no_name_header:
  assumes "\<And>k. k \<in> set (map toLowerCase (map fst row)) \<Longrightarrow> \<not> str_includes k ''name''"
  shows "extractName_ordered row = []"
proof -
  have inc: "str_includes ''name'' ''name''" "str_includes ''full name'' ''name''"
    "str_includes ''fullname'' ''name''" "str_includes ''first name'' ''name''"
    "str_includes ''firstname'' ''name''"
    by simp_all
  have "first_with (\<lambda>k. k = ''name'') row = None"
    using assms inc by (intro first_with_None) blast
  moreover have "first_with (\<lambda>k. k = ''full name'') row = None"
    using assms inc by (intro first_with_None) blast
  moreover have "first_with (\<lambda>k. k = ''fullname'') row = None"
    using assms inc by (intro first_with_None) blast
  moreover have "first_with isFirstName row = None"
    using assms inc unfolding isFirstName_def by (intro first_with_None) blast
  moreover have "first_with isFuzzyName row = None"
    using assms unfolding isFuzzyName_def by (intro first_with_None) blast
  ultimately show ?thesis
    by (simp add: extractName_ordered_def name_fallbacks_def)
qed

text \<open>
  C7, as amended: the name resolver tries, in this order, a header that is exactly
  \<open>name\<close>, then one that is exactly \<open>full name\<close>, then one that is exactly \<open>fullname\<close>
  (case-insensitively), then a first-name header together with a last-name header, joined
  by a space and trimmed, then a first-name header alone, then a header that contains
  \<open>name\<close> but neither \<open>email\<close> nor \<open>file\<close>; the first step whose header exists gives the
  result (the empty string where the cell is empty), and each step takes the first
  column in column order that qualifies for it. Where at most one of the three exact
  names occurs among the headers this is the resolver as the specification words it, and
  where no header contains \<open>name\<close> the result is the empty string.
\<close>

theorem name_resolver_order:
  "(\<forall>row. extractName row = extractName_ordered row) \<and>
   (\<forall>row. \<not> (''name'' \<in> set (map toLowerCase (map fst row)) \<and>
              ''full name'' \<in> set (map toLowerCase (map fst row))) \<and>
          \<not> (''name'' \<in> set (map toLowerCase (map fst row)) \<and>
              ''fullname'' \<in> set (map toLowerCase (map fst row))) \<and>
          \<not> (''full name'' \<in> set (map toLowerCase (map fst row)) \<and>
              ''fullname'' \<in> set (map toLowerCase (map fst row))) \<longrightarrow>
          extractName row = extractName_spec row) \<and>
   (\<forall>row. (\<forall>k \<in> set (map toLowerCase (map fst row)). \<not> str_includes k ''name'') \<longrightarrow>
          extractName row = [])"
proof (intro conjI allI impI)
  fix row :: obj
  show "extractName row = extractName_ordered row"
    by (rule extractName_eq_ordered)
next
  fix row :: obj
  assume "\<not> (''name'' \<in> set (map toLowerCase (map fst row)) \<and>
              ''full name'' \<in> set (map toLowerCase (map fst row))) \<and>
          \<not> (''name'' \<in> set (map toLowerCase (map fst row)) \<and>
              ''fullname'' \<in> set (map toLowerCase (map fst row))) \<and>
          \<not> (''full name'' \<in> set (map toLowerCase (map fst row)) \<and>
              ''fullname'' \<in> set (map toLowerCase (map fst row)))"
  then have "extractName_ordered row = extractName_spec row"
    by (intro ordered_eq_spec) blast+
  then show "extractName row = extractName_spec row"
    by (simp add: extractName_eq_ordered)
next
  fix row :: obj
  assume "\<forall>k \<in> set (map toLowerCase (map fst row)). \<not> str_includes k ''name''"
  then have "extractName_ordered row = []"
    by (intro no_name_header) blast
  then show "extractName row = []"
    by (simp add: extractName_eq_ordered)
qed

theorem name_resolver_order_witness:
  "\<not> (''name'' \<in> set (map toLowerCase (map fst [(''First Name'', Str ''Ann''), (''LASTNAME'', Str ''Lee'')])) \<and>
      ''full name'' \<in> set (map toLowerCase (map fst [(''First Name'', Str ''Ann''), (''LASTNAME'', Str ''Lee'')]))) \<and>
   \<not> (''name'' \<in> set (map toLowerCase (map fst [(''First Name'', Str ''Ann''), (''LASTNAME'', Str ''Lee'')])) \<and>
      ''fullname'' \<in> set (map toLowerCase (map fst [(''First Name'', Str ''Ann''), (''LASTNAME'', Str ''Lee'')]))) \<and>
   \<not> (''full name'' \<in> set (map toLowerCase (map fst [(''First Name'', Str ''Ann''), (''LASTNAME'', Str ''Lee'')])) \<and>
      ''fullname'' \<in> set (map toLowerCase (map fst [(''First Name'', Str ''Ann''), (''LASTNAME'', Str ''Lee'')]))) \<and>
   extractName [(''First Name'', Str ''Ann''), (''LASTNAME'', Str ''Lee'')] =
     extractName_spec [(''First Name'', Str ''Ann''), (''LASTNAME'', Str ''Lee'')] \<and>
   extractName_spec [(''First Name'', Str ''Ann''), (''LASTNAME'', Str ''Lee'')] = ''Ann Lee'' \<and>
   list_all (\<lambda>k. \<not> str_includes k ''name'')
     (map toLowerCase (map fst [(''Email'', Str ''ann@site.org''), (''Phone'', Str ''555'')])) \<and>
   extractName [(''Email'', Str ''ann@site.org''), (''Phone'', Str ''555'')] = [] \<and>
   extractName [(''FULLNAME'', Str ''Ann Lee''), (''Name'', Str ''Ann''), (''name'', Str ''A'')] =
     extractName_ordered [(''FULLNAME'', Str ''Ann Lee''), (''Name'', Str ''Ann''), (''name'', Str ''A'')] \<and>
   extractName_ordered [(''FULLNAME'', Str ''Ann Lee''), (''Name'', Str ''Ann''), (''name'', Str ''A'')] =
     ''Ann''"
proof -
  let ?r = "[(''First Name'', Str ''Ann''), (''LASTNAME'', Str ''Lee'')]"
  let ?e = "[(''Email'', Str ''ann@site.org''), (''Phone'', Str ''555'')]"
  let ?t = "[(''FULLNAME'', Str ''Ann Lee''), (''Name'', Str ''Ann''), (''name'', Str ''A'')]"
  have c: "\<not> (''name'' \<in> set (map toLowerCase (map fst ?r)) \<and>
      ''full name'' \<in> set (map toLowerCase (map fst ?r))) \<and>
   \<not> (''name'' \<in> set (map toLowerCase (map fst ?r)) \<and>
      ''fullname'' \<in> set (map toLowerCase (map fst ?r))) \<and>
   \<not> (''full name'' \<in> set (map toLowerCase (map fst ?r)) \<and>
      ''fullname'' \<in> set (map toLowerCase (map fst ?r)))"
    by code_simp
  have v: "extractName_spec ?r = ''Ann Lee''"
    by code_simp
  have s: "extractName ?r = extractName_spec ?r"
    by (rule name_resolver_order [THEN conjunct2, THEN conjunct1, rule_format, OF c])
  have n: "list_all (\<lambda>k. \<not> str_includes k ''name'') (map toLowerCase (map fst ?e))"
    by code_simp
  then have n': "\<forall>k \<in> set (map toLowerCase (map fst ?e)). \<not> str_includes k ''name''"
    by (simp only: list_all_iff)
  have z: "extractName ?e = []"
    by (rule name_resolver_order [THEN conjunct2, THEN conjunct2, THEN spec, THEN mp, OF n'])
  have o: "extractName ?t = extractName_ordered ?t"
    by (rule name_resolver_order [THEN conjunct1, rule_format])
  have ov: "extractName_ordered ?t = ''Ann''"
    by code_simp
  show ?thesis
    by (intro conjI c [THEN conjunct1] c [THEN conjunct2, THEN conjunct1]
        c [THEN conjunct2, THEN conjunct2] s v n z o ov)
qed

text \<open>
  C7 as stated fails where two of the exact names occur: with a \<open>Full Name\<close> column before
  a \<open>Name\<close> column, the first qualifying column in column order is \<open>Full Name\<close>, and the
  resolver returns the \<open>Name\<close> cell.
\<close>

theorem name_resolver_tie_counterexample:
  "extractName [(''Full Name'', Str ''Alice Smith''), (''Name'', Str ''Al'')] = ''Al'' \<and>
   extractName_spec [(''Full Name'', Str ''Alice Smith''), (''Name'', Str ''Al'')] = ''Alice Smith''"
  by code_simp

section \<open>The export projection, verified\<close>

lemma read_or_empty_own:
  "col \<notin> set object_prototype_names \<Longrightarrow>
   read_or_empty record col = Own (Str (or_empty (obj_get record col)))"
  by (simp add: read_or_empty_def obj_get_def or_empty_def split: option.splits)

lemma header_of_proto: "(header_of col = ''__proto__'') = (col = ''__proto__'')"
  by (simp add: header_of_def)

lemma proto_is_prototype_name: "''__proto__'' \<in> set object_prototype_names"
  by (simp add: object_prototype_names_def)

lemma project_step_plain:
  assumes "c \<notin> set object_prototype_names"
    and "header_of c \<notin> fst ` set acc" and "\<not> isArrayIndex (header_of c)"
  shows "(let header = header_of c; v = read_or_empty record c
          in if header = ''__proto__'' then acc else obj_set acc header v) =
         acc @ [(header_of c, Own (Str (or_empty (obj_get record c))))]"
proof -
  from assms(1) have "c \<noteq> ''__proto__''"
    using proto_is_prototype_name by auto
  then have "header_of c \<noteq> ''__proto__''"
    by (simp add: header_of_proto)
  then show ?thesis
    using assms by (simp add: Let_def read_or_empty_own obj_set_fresh)
qed

lemma project_foldl:
  assumes "distinct (map header_of cs)"
    and "header_of ` set cs \<inter> fst ` set acc = {}"
    and "\<forall>c\<in>set cs. \<not> isArrayIndex (header_of c)"
    and "\<forall>c\<in>set cs. c \<notin> set object_prototype_names"
  shows "foldl (\<lambda>filtered col.
              let header = header_of col;
                  v = read_or_empty record col
              in if header = ''__proto__'' then filtered else obj_set filtered header v)
           acc cs =
         acc @ project_spec record cs"
  using assms
proof (induction cs arbitrary: acc)
  case Nil
  then show ?case by (simp add: project_spec_def)
next
  case (Cons c cs)
  let ?p = "(header_of c, Own (Str (or_empty (obj_get record c))))"
  from Cons.prems have step:
    "(let header = header_of c; v = read_or_empty record c
      in if header = ''__proto__'' then acc else obj_set acc header v) = acc @ [?p]"
    by (intro project_step_plain) auto
  have d: "header_of ` set cs \<inter> fst ` set (acc @ [?p]) = {}"
    using Cons.prems by auto
  have "foldl (\<lambda>filtered col.
              let header = header_of col;
                  v = read_or_empty record col
              in if header = ''__proto__'' then filtered else obj_set filtered header v)
           (acc @ [?p]) cs = (acc @ [?p]) @ project_spec record cs"
    using Cons.prems d by (intro Cons.IH) simp_all
  then show ?case
    by (simp only: foldl_Cons step) (simp add: project_spec_def)
qed

lemma project_eq_spec:
  assumes "distinct (map header_of columns)"
    and "\<forall>c\<in>set columns. \<not> isArrayIndex (header_of c)"
    and "\<forall>c\<in>set columns. c \<notin> set object_prototype_names"
  shows "project record columns = project_spec record columns"
  using project_foldl [of columns "[]" "record"] assms
  by (simp add: project_def)

lemma project_email_only:
  "project record [''email''] = [(''Email'', Own (Str (or_empty (obj_get record ''email''))))]"
proof -
  have "distinct (map header_of [''email''])" by simp
  moreover have "\<forall>c\<in>set [''email'']. \<not> isArrayIndex (header_of c)"
    by (simp add: header_of_def isArrayIndex_def isDigit_def)
  moreover have "\<forall>c\<in>set [''email'']. c \<notin> set object_prototype_names"
    by (simp add: object_prototype_names_def)
  ultimately have "project record [''email''] = project_spec record [''email'']"
    by (rule project_eq_spec)
  then show ?thesis
    by (simp add: project_spec_def header_of_def)
qed

lemma emitted_records:
  "r \<in> set (processedRecords (foldl processRow st rows)) \<Longrightarrow>
   r \<in> set (processedRecords st) \<or>
   (\<exists>row\<in>set rows. \<exists>status.
      r = makeRecord (rawEmailOf row) (trim (toLowerCase (rawEmailOf row))) (extractName row)
            status row)"
proof (induction rows arbitrary: st)
  case Nil
  then show ?case by simp
next
  case (Cons row rows)
  from Cons.prems have "r \<in> set (processedRecords (foldl processRow (processRow st row) rows))"
    by simp
  then have "r \<in> set (processedRecords (processRow st row)) \<or>
   (\<exists>row\<in>set rows. \<exists>status.
      r = makeRecord (rawEmailOf row) (trim (toLowerCase (rawEmailOf row))) (extractName row)
            status row)"
    by (rule Cons.IH)
  moreover have "processedRecords (processRow st row) = processedRecords st @
      [makeRecord (rawEmailOf row) (trim (toLowerCase (rawEmailOf row))) (extractName row)
         (rowStatus st row) row]"
    by (simp add: processRow_unfold normalizedEmailOf_def)
  ultimately show ?case by auto
qed

lemma project_emitted_record:
  assumes "''email'' \<notin> set (map fst row)"
  shows "project (makeRecord rawEmail normalizedEmail name status row) [''email''] =
           [(''Email'', Own (Str normalizedEmail))]"
proof -
  have "obj_get (makeRecord rawEmail normalizedEmail name status row) ''email'' =
      Str normalizedEmail"
    using assms emitted_record_fields(2) [of "''email''" row] by simp
  then show ?thesis
    by (simp add: project_email_only or_empty_simps)
qed

lemma keys_insert_index: "fst ` set (insert_index k v ob) = insert k (fst ` set ob)"
proof (induction ob)
  case Nil
  then show ?case by simp
next
  case (Cons p ob)
  obtain a b where p: "p = (a, b)" by (cases p)
  show ?case
  proof (cases "isArrayIndex a \<and> index_val a < index_val k")
    case True
    then have "insert_index k v (p # ob) = p # insert_index k v ob"
      by (simp add: p)
    then show ?thesis using Cons.IH by auto
  next
    case False
    then have "insert_index k v (p # ob) = (k, v) # p # ob"
      by (auto simp add: p)
    then show ?thesis by auto
  qed
qed

lemma keys_update_in_place:
  "fst ` set (map (\<lambda>(a, b). if a = k then (a, v) else (a, b)) ob) = fst ` set ob"
proof -
  have "map fst (map (\<lambda>(a, b). if a = k then (a, v) else (a, b)) ob) = map fst ob"
    by (induction ob) auto
  then have "set (map fst (map (\<lambda>(a, b). if a = k then (a, v) else (a, b)) ob)) = set (map fst ob)"
    by (rule arg_cong)
  then show ?thesis by (simp only: set_map)
qed

lemma keys_obj_set: "fst ` set (obj_set ob k v) = insert k (fst ` set ob)"
proof (cases "k \<in> set (map fst ob)")
  case True
  then have e: "obj_set ob k v = map (\<lambda>(a, b). if a = k then (a, v) else (a, b)) ob"
    by (simp add: obj_set_def)
  from True have "insert k (fst ` set ob) = fst ` set ob"
    by auto
  then show ?thesis
    unfolding e keys_update_in_place by simp
next
  case False
  then show ?thesis
    by (cases "isArrayIndex k") (simp_all add: obj_set_def keys_insert_index)
qed

lemma keys_obj_assign: "fst ` set (obj_assign target src) = fst ` set target \<union> fst ` set src"
proof (induction src arbitrary: target)
  case Nil
  then show ?case by (simp add: obj_assign_def)
next
  case (Cons p src)
  obtain a b where p: "p = (a, b)" by (cases p)
  have "obj_assign target (p # src) = obj_assign (obj_set target a b) src"
    by (simp add: obj_assign_def p)
  then show ?case
    using Cons.IH [of "obj_set target a b"] by (auto simp add: keys_obj_set p)
qed

lemma keys_enrich: "fst ` set (enrich fileName row) = insert ''_sourceFile'' (fst ` set row)"
  by (simp add: enrich_def keys_obj_set keys_obj_assign)

lemma parsed_rows_Cons:
  "parsed_rows ((fileName, ParseFailed) # files) = parsed_rows files"
  "parsed_rows ((fileName, Parsed data) # files) = data @ parsed_rows files"
  by (simp_all add: parsed_rows_def)

lemma consolidate_foldl:
  "row' \<in> set (foldl (\<lambda>allRecords (fileName, p).
              case p of
                ParseFailed \<Rightarrow> allRecords
              | Parsed data \<Rightarrow> allRecords @ map (enrich fileName) data)
           acc files) \<Longrightarrow>
   row' \<in> set acc \<or> (\<exists>row\<in>set (parsed_rows files). \<exists>fileName. row' = enrich fileName row)"
proof (induction files arbitrary: acc)
  case Nil
  then show ?case by simp
next
  case (Cons f files)
  obtain fileName p where f: "f = (fileName, p)" by (cases f)
  show ?case
  proof (cases p)
    case ParseFailed
    with Cons.prems f have "row' \<in> set (foldl (\<lambda>allRecords (fileName, p).
              case p of
                ParseFailed \<Rightarrow> allRecords
              | Parsed data \<Rightarrow> allRecords @ map (enrich fileName) data)
           acc files)"
      by simp
    from Cons.IH [OF this] show ?thesis
      unfolding f ParseFailed parsed_rows_Cons .
  next
    case (Parsed data)
    with Cons.prems f have "row' \<in> set (foldl (\<lambda>allRecords (fileName, p).
              case p of
                ParseFailed \<Rightarrow> allRecords
              | Parsed data \<Rightarrow> allRecords @ map (enrich fileName) data)
           (acc @ map (enrich fileName) data) files)"
      by simp
    from Cons.IH [OF this] show ?thesis
      unfolding f Parsed parsed_rows_Cons by auto
  qed
qed

lemma consolidate_rows:
  "row' \<in> set (consolidate files) \<Longrightarrow>
   \<exists>row\<in>set (parsed_rows files). \<exists>fileName. row' = enrich fileName row"
  using consolidate_foldl [of row' "[]" files] by (simp add: consolidate_def)

lemma valid_record_emitted:
  assumes "r \<in> set (validRecords (processFiles files))"
  shows "\<exists>row\<in>set (parsed_rows files). \<exists>fileName status.
           r = makeRecord (rawEmailOf (enrich fileName row))
                 (trim (toLowerCase (rawEmailOf (enrich fileName row))))
                 (extractName (enrich fileName row)) status (enrich fileName row)"
proof -
  from assms have "r \<in> set (processedRecords (foldl processRow initial_state (consolidate files)))"
    by (simp add: processFiles_def Let_def)
  from emitted_records [OF this]
  obtain row' status where r': "row' \<in> set (consolidate files)"
    and r: "r = makeRecord (rawEmailOf row') (trim (toLowerCase (rawEmailOf row')))
                  (extractName row') status row'"
    by (auto simp add: initial_state_def)
  from consolidate_rows [OF r'] obtain row fileName
    where "row \<in> set (parsed_rows files)" and "row' = enrich fileName row"
    by blast
  with r show ?thesis by blast
qed

lemma valid_record_email_column:
  assumes "\<forall>row\<in>set (parsed_rows files).
             ''email'' \<notin> set (map fst row) \<and> ''original'' \<notin> set (map fst row)"
    and "r \<in> set (validRecords (processFiles files))"
  shows "project r [''email''] =
           [(''Email'', Own (Str (trim (toLowerCase (js_String (obj_get r ''original''))))))]"
proof -
  from valid_record_emitted [OF assms(2)] obtain row fileName status
    where row: "row \<in> set (parsed_rows files)"
      and r: "r = makeRecord (rawEmailOf (enrich fileName row))
                 (trim (toLowerCase (rawEmailOf (enrich fileName row))))
                 (extractName (enrich fileName row)) status (enrich fileName row)"
    by blast
  let ?row = "enrich fileName row"
  from assms(1) row have "''email'' \<notin> fst ` set row" "''original'' \<notin> fst ` set row"
    by auto
  then have e: "''email'' \<notin> set (map fst ?row)" and o: "''original'' \<notin> set (map fst ?row)"
    by (simp_all add: keys_enrich)
  have "obj_get r ''original'' = Str (rawEmailOf ?row)"
    unfolding r using emitted_record_fields(1) [OF o] by simp
  then have "js_String (obj_get r ''original'') = rawEmailOf ?row"
    by (simp add: js_String_def)
  moreover have "project r [''email''] =
      [(''Email'', Own (Str (trim (toLowerCase (rawEmailOf ?row)))))]"
    unfolding r by (rule project_emitted_record [OF e])
  ultimately show ?thesis by simp
qed

text \<open>
  C9, as amended: for every record list and every non-empty field list whose remapped
  headers are pairwise distinct, none an array index, and whose fields are none the name
  of a property of \<open>Object.prototype\<close>, the projection gives one row for each record, with
  one column for each listed field in the order of the list, under the header \<open>Email\<close>,
  \<open>Name\<close> or \<open>Status\<close> for the fields \<open>email\<close>, \<open>name\<close> and \<open>status\<close> and under the field's
  own name otherwise, holding the empty string where the record lacks the field.
  Projecting any record with the field list \<open>["email"]\<close> gives the one column \<open>Email\<close>
  holding the record's \<open>email\<close> property. For the record the loop emits for a row without
  a column named \<open>email\<close> that is the lowercased and trimmed raw email of the row, and for
  every valid record of a run whose files have no column named \<open>email\<close> or \<open>original\<close> it
  is the lowercased and trimmed \<open>original\<close> of the record.
\<close>

theorem export_projection:
  "(\<forall>data columns.
      columns \<noteq> [] \<and> distinct (map header_of columns) \<and>
      (\<forall>c\<in>set columns. \<not> isArrayIndex (header_of c)) \<and>
      (\<forall>c\<in>set columns. c \<notin> set object_prototype_names) \<longrightarrow>
      exportData data columns = map (\<lambda>record. project_spec record columns) data) \<and>
   header_of ''email'' = ''Email'' \<and> header_of ''name'' = ''Name'' \<and>
   header_of ''status'' = ''Status'' \<and>
   (\<forall>col. col \<noteq> ''email'' \<and> col \<noteq> ''name'' \<and> col \<noteq> ''status'' \<longrightarrow> header_of col = col) \<and>
   (\<forall>record col. col \<notin> set (map fst record) \<and> col \<notin> set object_prototype_names \<longrightarrow>
      read_or_empty record col = Own (Str [])) \<and>
   (\<forall>record. project record [''email''] =
      [(''Email'', Own (Str (or_empty (obj_get record ''email''))))]) \<and>
   (\<forall>st row. ''email'' \<notin> set (map fst row) \<longrightarrow>
      project (last (processedRecords (processRow st row))) [''email''] =
        [(''Email'', Own (Str (trim (toLowerCase (rawEmailOf row)))))]) \<and>
   (\<forall>files.
      (\<forall>row\<in>set (parsed_rows files).
         ''email'' \<notin> set (map fst row) \<and> ''original'' \<notin> set (map fst row)) \<longrightarrow>
      (\<forall>r\<in>set (validRecords (processFiles files)).
         project r [''email''] =
           [(''Email'', Own (Str (trim (toLowerCase (js_String (obj_get r ''original''))))))]))"
proof (intro conjI allI impI ballI)
  fix data :: "obj list" and columns
  assume h: "columns \<noteq> [] \<and> distinct (map header_of columns) \<and>
      (\<forall>c\<in>set columns. \<not> isArrayIndex (header_of c)) \<and>
      (\<forall>c\<in>set columns. c \<notin> set object_prototype_names)"
  then have "\<And>r. project r columns = project_spec r columns"
    by (intro project_eq_spec) simp_all
  with h show "exportData data columns = map (\<lambda>record. project_spec record columns) data"
    by (simp add: exportData_def)
next
  show "header_of ''email'' = ''Email''" by (simp add: header_of_def)
  show "header_of ''name'' = ''Name''" by (simp add: header_of_def)
  show "header_of ''status'' = ''Status''" by (simp add: header_of_def)
next
  fix col
  assume "col \<noteq> ''email'' \<and> col \<noteq> ''name'' \<and> col \<noteq> ''status''"
  then show "header_of col = col" by (simp add: header_of_other)
next
  fix r :: obj and col
  assume h: "col \<notin> set (map fst r) \<and> col \<notin> set object_prototype_names"
  then have "map_of r col = None" by (simp add: map_of_eq_None_iff)
  with h show "read_or_empty r col = Own (Str [])"
    by (simp add: read_or_empty_def)
next
  fix r :: obj
  show "project r [''email''] = [(''Email'', Own (Str (or_empty (obj_get r ''email''))))]"
    by (rule project_email_only)
next
  fix st :: loop_state and row :: obj
  assume e: "''email'' \<notin> set (map fst row)"
  have "last (processedRecords (processRow st row)) =
      makeRecord (rawEmailOf row) (trim (toLowerCase (rawEmailOf row))) (extractName row)
        (rowStatus st row) row"
    by (simp add: processRow_unfold normalizedEmailOf_def)
  then show "project (last (processedRecords (processRow st row))) [''email''] =
        [(''Email'', Own (Str (trim (toLowerCase (rawEmailOf row)))))]"
    by (simp only: project_emitted_record [OF e])
next
  fix files r
  assume "\<forall>row\<in>set (parsed_rows files).
         ''email'' \<notin> set (map fst row) \<and> ''original'' \<notin> set (map fst row)"
    and "r \<in> set (validRecords (processFiles files))"
  then show "project r [''email''] =
           [(''Email'', Own (Str (trim (toLowerCase (js_String (obj_get r ''original''))))))]"
    by (rule valid_record_email_column)
qed

theorem export_projection_witness:
  "[''email'', ''status''] \<noteq> [] \<and> distinct (map header_of [''email'', ''status'']) \<and>
   list_all (\<lambda>c. \<not> isArrayIndex (header_of c)) [''email'', ''status''] \<and>
   list_all (\<lambda>c. c \<notin> set object_prototype_names) [''email'', ''status''] \<and>
   exportData [[(''original'', Str ''Bad@''), (''email'', Str ''bad@''),
                (''status'', Str ''INVALID_FORMAT'')]] [''email'', ''status''] =
     [[(''Email'', Own (Str ''bad@'')), (''Status'', Own (Str ''INVALID_FORMAT''))]] \<and>
   ''sourceFile'' \<noteq> ''email'' \<and> ''sourceFile'' \<noteq> ''name'' \<and> ''sourceFile'' \<noteq> ''status'' \<and>
   header_of ''sourceFile'' = ''sourceFile'' \<and>
   ''phone'' \<notin> set (map fst [(''email'', Str ''bad@'')]) \<and>
   ''phone'' \<notin> set object_prototype_names \<and>
   read_or_empty [(''email'', Str ''bad@'')] ''phone'' = Own (Str []) \<and>
   ''email'' \<notin> set (map fst [(''Email'', Str ''Bob@Site.org '')]) \<and>
   project (last (processedRecords (processRow initial_state [(''Email'', Str ''Bob@Site.org '')])))
     [''email''] = [(''Email'', Own (Str ''bob@site.org''))] \<and>
   list_all (\<lambda>row. ''email'' \<notin> set (map fst row) \<and> ''original'' \<notin> set (map fst row))
     (parsed_rows [(''list.csv'', Parsed [[(''Email'', Str ''Bob@Site.org '')]])]) \<and>
   validRecords (processFiles [(''list.csv'', Parsed [[(''Email'', Str ''Bob@Site.org '')]])]) =
     [[(''original'', Str ''Bob@Site.org ''), (''email'', Str ''bob@site.org''), (''name'', Str []),
       (''status'', Str ''VALID''), (''sourceFile'', Str ''list.csv''),
       (''Email'', Str ''Bob@Site.org ''), (''_sourceFile'', Str ''list.csv'')]] \<and>
   project [(''original'', Str ''Bob@Site.org ''), (''email'', Str ''bob@site.org''), (''name'', Str []),
       (''status'', Str ''VALID''), (''sourceFile'', Str ''list.csv''),
       (''Email'', Str ''Bob@Site.org ''), (''_sourceFile'', Str ''list.csv'')] [''email''] =
     [(''Email'', Own (Str ''bob@site.org''))]"
proof -
  let ?d = "[[(''original'', Str ''Bad@''), (''email'', Str ''bad@''),
                (''status'', Str ''INVALID_FORMAT'')]]"
  let ?row = "[(''Email'', Str ''Bob@Site.org '')]"
  let ?files = "[(''list.csv'', Parsed [?row])]"
  let ?rec = "[(''original'', Str ''Bob@Site.org ''), (''email'', Str ''bob@site.org''), (''name'', Str []),
       (''status'', Str ''VALID''), (''sourceFile'', Str ''list.csv''),
       (''Email'', Str ''Bob@Site.org ''), (''_sourceFile'', Str ''list.csv'')]"
  have a1: "[''email'', ''status''] \<noteq> []" by simp
  have a2: "distinct (map header_of [''email'', ''status''])"
    by (simp add: header_of_def)
  have b: "list_all (\<lambda>c. \<not> isArrayIndex (header_of c)) [''email'', ''status'']"
    by (simp add: header_of_def isArrayIndex_def isDigit_def)
  then have b': "\<forall>c\<in>set [''email'', ''status'']. \<not> isArrayIndex (header_of c)"
    by (simp only: list_all_iff)
  have c: "list_all (\<lambda>c. c \<notin> set object_prototype_names) [''email'', ''status'']"
    by (simp add: object_prototype_names_def)
  then have c': "\<forall>c\<in>set [''email'', ''status'']. c \<notin> set object_prototype_names"
    by (simp only: list_all_iff)
  have "exportData ?d [''email'', ''status''] =
     map (\<lambda>record. project_spec record [''email'', ''status'']) ?d"
    by (rule export_projection [THEN conjunct1, THEN spec, THEN spec, THEN mp,
          OF conjI [OF a1 conjI [OF a2 conjI [OF b' c']]]])
  then have d: "exportData ?d [''email'', ''status''] =
     [[(''Email'', Own (Str ''bad@'')), (''Status'', Own (Str ''INVALID_FORMAT''))]]"
    by (simp add: project_spec_def header_of_def obj_get_def or_empty_def)
  have e1: "''sourceFile'' \<noteq> ''email''" and e2: "''sourceFile'' \<noteq> ''name''"
    and e3: "''sourceFile'' \<noteq> ''status''"
    by simp_all
  have f: "header_of ''sourceFile'' = ''sourceFile''"
    by (rule export_projection [THEN conjunct2, THEN conjunct2, THEN conjunct2, THEN conjunct2,
          THEN conjunct1, rule_format, OF conjI [OF e1 conjI [OF e2 e3]]])
  have g1: "''phone'' \<notin> set (map fst [(''email'', Str ''bad@'')])"
    by simp
  have g2: "''phone'' \<notin> set object_prototype_names"
    by (simp add: object_prototype_names_def)
  have h: "read_or_empty [(''email'', Str ''bad@'')] ''phone'' = Own (Str [])"
    by (rule export_projection [THEN conjunct2, THEN conjunct2, THEN conjunct2, THEN conjunct2,
          THEN conjunct2, THEN conjunct1, rule_format, OF conjI [OF g1 g2]])
  have i: "''email'' \<notin> set (map fst ?row)"
    by simp
  have n: "trim (toLowerCase (rawEmailOf ?row)) = ''bob@site.org''"
    by code_simp
  have "project (last (processedRecords (processRow initial_state ?row))) [''email''] =
      [(''Email'', Own (Str (trim (toLowerCase (rawEmailOf ?row)))))]"
    by (rule export_projection [THEN conjunct2, THEN conjunct2, THEN conjunct2, THEN conjunct2,
          THEN conjunct2, THEN conjunct2, THEN conjunct2, THEN conjunct1, rule_format, OF i])
  then have j: "project (last (processedRecords (processRow initial_state ?row))) [''email''] =
      [(''Email'', Own (Str ''bob@site.org''))]"
    by (simp only: n)
  have k: "list_all (\<lambda>row. ''email'' \<notin> set (map fst row) \<and> ''original'' \<notin> set (map fst row))
     (parsed_rows ?files)"
    by code_simp
  then have k': "\<forall>row\<in>set (parsed_rows ?files).
      ''email'' \<notin> set (map fst row) \<and> ''original'' \<notin> set (map fst row)"
    by (simp only: list_all_iff)
  have v: "validRecords (processFiles ?files) = [?rec]"
    by code_simp
  then have m: "?rec \<in> set (validRecords (processFiles ?files))"
    by simp
  have o: "trim (toLowerCase (js_String (obj_get ?rec ''original''))) = ''bob@site.org''"
    by code_simp
  have "project ?rec [''email''] =
      [(''Email'', Own (Str (trim (toLowerCase (js_String (obj_get ?rec ''original''))))))]"
    by (rule export_projection [THEN conjunct2, THEN conjunct2, THEN conjunct2, THEN conjunct2,
          THEN conjunct2, THEN conjunct2, THEN conjunct2, THEN conjunct2, THEN spec, THEN mp,
          OF k', THEN bspec, OF m])
  then have l: "project ?rec [''email''] = [(''Email'', Own (Str ''bob@site.org''))]"
    by (simp only: o)
  show ?thesis
    by (intro conjI a1 a2 b c d e1 e2 e3 f g1 g2 h i j k v l)
qed

text \<open>
  C9 as stated fails where two listed fields have the same header, where a listed field
  is an array index, and where a listed field that the record lacks is the name of a
  property of \<open>Object.prototype\<close>: the fields \<open>Email\<close> and \<open>email\<close> give the one column
  \<open>Email\<close>, the field \<open>1\<close> listed after \<open>b\<close> comes before it, the field \<open>constructor\<close> gives
  the inherited function and not the empty string, and the field \<open>__proto__\<close> gives no
  column.
\<close>

theorem export_projection_collision_counterexample:
  "project [(''email'', Str ''a@x.com''), (''Email'', Str ''A@X.com'')] [''Email'', ''email''] =
     [(''Email'', Own (Str ''a@x.com''))] \<and>
   project_spec [(''email'', Str ''a@x.com''), (''Email'', Str ''A@X.com'')] [''Email'', ''email''] =
     [(''Email'', Own (Str ''A@X.com'')), (''Email'', Own (Str ''a@x.com''))] \<and>
   project [(''1'', Str ''x''), (''b'', Str ''y'')] [''b'', ''1''] =
     [(''1'', Own (Str ''x'')), (''b'', Own (Str ''y''))] \<and>
   project_spec [(''1'', Str ''x''), (''b'', Str ''y'')] [''b'', ''1''] =
     [(''b'', Own (Str ''y'')), (''1'', Own (Str ''x''))] \<and>
   project [(''email'', Str ''a@x.com'')] [''constructor'', ''email''] =
     [(''constructor'', Inherited ''constructor''), (''Email'', Own (Str ''a@x.com''))] \<and>
   project_spec [(''email'', Str ''a@x.com'')] [''constructor'', ''email''] =
     [(''constructor'', Own (Str [])), (''Email'', Own (Str ''a@x.com''))] \<and>
   project [(''email'', Str ''a@x.com'')] [''__proto__'', ''email''] =
     [(''Email'', Own (Str ''a@x.com''))] \<and>
   project_spec [(''email'', Str ''a@x.com'')] [''__proto__'', ''email''] =
     [(''__proto__'', Own (Str [])), (''Email'', Own (Str ''a@x.com''))]"
  by code_simp

end
